theory Spec2Isabelle
  imports
    Complex_Main
    "HOL-Library.Char_ord"
    "HOL-Library.List_Lexorder"
    "HOL-Library.Product_Lexorder"
begin

section \<open>Backoff policy (package backoff)\<close>

text \<open>
  A \<open>time.Duration\<close> is an \<open>int64\<close> count of nanoseconds; it is modelled by \<open>int\<close>.
  \<open>Factor\<close> is a \<open>float64\<close>. Finite \<open>float64\<close> values are modelled by the reals they
  denote and the two floating-point operations of \<open>GetNextInterval\<close> (\<open>math.Pow\<close> and one
  multiplication) by exact real arithmetic. For \<open>Factor = 2.0\<close> and \<open>Base = 10^9\<close>, the
  configuration of the worker, every product \<open>10^9 * 2^n\<close> below \<open>2^1024\<close> is a
  \<open>float64\<close> (its odd part \<open>5^9\<close> has 21 bits), so the model is exact where the theorems
  evaluate it.
\<close>

type_synonym Duration = int

definition Nanosecond :: Duration where "Nanosecond = 1"
definition Second :: Duration where "Second = 1000000000 * Nanosecond"
definition Hour :: Duration where "Hour = 3600 * Second"

record ExponentialStrategy =
  Base :: Duration
  Factor :: real
  Max_interval :: Duration

definition NewExponentialStrategy :: "Duration \<Rightarrow> real \<Rightarrow> Duration \<Rightarrow> ExponentialStrategy" where
  "NewExponentialStrategy base factor max_d = \<lparr>Base = base, Factor = factor, Max_interval = max_d\<rparr>"

text \<open>
  The conversion \<open>time.Duration(f)\<close> of a \<open>float64\<close> to \<open>int64\<close> truncates toward zero when
  the truncated value fits. When it does not fit, the Go specification leaves the result to
  the implementation; \<open>oor\<close> is that implementation-dependent result. On amd64 the
  conversion instruction answers \<open>0x8000000000000000\<close> for every value out of range; on
  arm64 the instruction saturates.
\<close>

definition trunc_toward_zero :: "real \<Rightarrow> int" where
  "trunc_toward_zero x = (if 0 \<le> x then \<lfloor>x\<rfloor> else \<lceil>x\<rceil>)"

definition fits_int64 :: "real \<Rightarrow> bool" where
  "fits_int64 x \<longleftrightarrow> - (2 ^ 63) - 1 < x \<and> x < 2 ^ 63"

definition float64_to_int64 :: "(real \<Rightarrow> int) \<Rightarrow> real \<Rightarrow> int" where
  "float64_to_int64 oor x = (if fits_int64 x then trunc_toward_zero x else oor x)"

definition oor_amd64 :: "real \<Rightarrow> int" where
  "oor_amd64 x = - (2 ^ 63)"

definition oor_arm64 :: "real \<Rightarrow> int" where
  "oor_arm64 x = (if 0 < x then 2 ^ 63 - 1 else - (2 ^ 63))"

text \<open>
  \<^verbatim>\<open>
  multiplier := math.Pow(s.Factor, float64(retryCount))
  interval := time.Duration(float64(s.Base) * multiplier)
  if interval > s.Max { return s.Max }
  return interval
  \<close>
\<close>

definition GetNextInterval :: "(real \<Rightarrow> int) \<Rightarrow> ExponentialStrategy \<Rightarrow> int \<Rightarrow> Duration" where
  "GetNextInterval oor s retryCount =
     (let multiplier = Factor s powi retryCount;
          interval = float64_to_int64 oor (real_of_int (Base s) * multiplier)
      in if interval > Max_interval s then Max_interval s else interval)"

text \<open>The strategy built by the worker's \<open>main\<close>: one second, factor 2.0, one hour.\<close>

definition worker_strategy :: ExponentialStrategy where
  "worker_strategy = NewExponentialStrategy (1 * Second) 2 (1 * Hour)"

section \<open>Serialisation (encoding/json, as used on \<open>queue.Task\<close>)\<close>

text \<open>
  A Go \<open>string\<close> is a sequence of bytes: it is modelled by \<open>string\<close>, whose characters
  are the 256 byte values. \<open>json.Marshal\<close> and \<open>json.Unmarshal\<close> belong to the Go
  standard library; they are modelled from their documented behaviour on the three fields
  of \<open>Task\<close>: a string, an \<open>int\<close> and a \<open>time.Time\<close>.
\<close>

definition byte :: "char \<Rightarrow> nat" where
  "byte c = of_char c"

definition dq :: char where "dq = CHR 0x22"
definition bsl :: char where "bsl = CHR 0x5C"

subsection \<open>UTF-8 (package unicode/utf8)\<close>

definition RuneError :: nat where "RuneError = 0xFFFD"

definition seq_size :: "nat \<Rightarrow> nat" where
  "seq_size s0 = (if s0 < 0xE0 then 2 else if s0 < 0xF0 then 3 else 4)"

definition accept_lo :: "nat \<Rightarrow> nat" where
  "accept_lo s0 = (if s0 = 0xE0 then 0xA0 else if s0 = 0xF0 then 0x90 else 0x80)"

definition accept_hi :: "nat \<Rightarrow> nat" where
  "accept_hi s0 = (if s0 = 0xED then 0x9F else if s0 = 0xF4 then 0x8F else 0xBF)"

definition contb :: "nat \<Rightarrow> bool" where
  "contb b \<longleftrightarrow> 0x80 \<le> b \<and> b \<le> 0xBF"

text \<open>
  \<open>utf8.DecodeRuneInString\<close>: the first rune of the string and its width in bytes; an
  ill-formed or truncated sequence decodes to \<open>(RuneError, 1)\<close>, the empty string to
  \<open>(RuneError, 0)\<close>. Lead bytes \<open>0xC2..0xF4\<close> open sequences of two to four bytes; the
  second byte is restricted further after \<open>0xE0\<close>, \<open>0xED\<close>, \<open>0xF0\<close> and \<open>0xF4\<close>, which
  excludes overlong forms, surrogates and values above \<open>U+10FFFF\<close>.
\<close>

definition DecodeRune :: "string \<Rightarrow> nat \<times> nat" where
  "DecodeRune s =
     (case s of
        [] \<Rightarrow> (RuneError, 0)
      | c0 # r0 \<Rightarrow>
          let s0 = byte c0 in
          if s0 < 0x80 then (s0, 1)
          else if s0 < 0xC2 \<or> 0xF4 < s0 then (RuneError, 1)
          else if length s < seq_size s0 then (RuneError, 1)
          else
            (case r0 of
               [] \<Rightarrow> (RuneError, 1)
             | c1 # r1 \<Rightarrow>
                 let s1 = byte c1 in
                 if s1 < accept_lo s0 \<or> accept_hi s0 < s1 then (RuneError, 1)
                 else if seq_size s0 \<le> 2 then (s0 mod 32 * 64 + s1 mod 64, 2)
                 else
                   (case r1 of
                      [] \<Rightarrow> (RuneError, 1)
                    | c2 # r2 \<Rightarrow>
                        let s2 = byte c2 in
                        if \<not> contb s2 then (RuneError, 1)
                        else if seq_size s0 \<le> 3
                          then (s0 mod 16 * 4096 + s1 mod 64 * 64 + s2 mod 64, 3)
                        else
                          (case r2 of
                             [] \<Rightarrow> (RuneError, 1)
                           | c3 # r3 \<Rightarrow>
                               let s3 = byte c3 in
                               if \<not> contb s3 then (RuneError, 1)
                               else (s0 mod 8 * 262144 + s1 mod 64 * 4096
                                       + s2 mod 64 * 64 + s3 mod 64, 4)))))"

text \<open>\<open>utf8.EncodeRune\<close>: surrogates and values above \<open>U+10FFFF\<close> are written as U+FFFD.\<close>

definition EncodeRune :: "nat \<Rightarrow> string" where
  "EncodeRune r =
     (if r \<le> 0x7F then [char_of r]
      else if r \<le> 0x7FF then [char_of (0xC0 + r div 64), char_of (0x80 + r mod 64)]
      else if 0x10FFFF < r \<or> (0xD800 \<le> r \<and> r \<le> 0xDFFF)
        then [CHR 0xEF, CHR 0xBF, CHR 0xBD]
      else if r \<le> 0xFFFF
        then [char_of (0xE0 + r div 4096), char_of (0x80 + r div 64 mod 64),
              char_of (0x80 + r mod 64)]
      else [char_of (0xF0 + r div 262144), char_of (0x80 + r div 4096 mod 64),
            char_of (0x80 + r div 64 mod 64), char_of (0x80 + r mod 64)])"

text \<open>
  A string is valid UTF-8 (\<open>utf8.ValidString\<close>) when decoding never meets an ill-formed
  sequence.
\<close>

fun ValidString :: "string \<Rightarrow> bool" where
  "ValidString [] = True"
| "ValidString (c # cs) =
     (case DecodeRune (c # cs) of
        (r, sz) \<Rightarrow> \<not> (r = RuneError \<and> sz = 1) \<and> ValidString (drop (sz - 1) cs))"

text \<open>
  The conversions \<open>[]rune(s)\<close> and \<open>string(rs)\<close> of the language: the runes of a string,
  where every byte that does not begin a well-formed sequence counts as U+FFFD, and the
  UTF-8 text of a sequence of runes. \<open>coerced s\<close> is \<open>string([]rune(s))\<close>: the string \<open>s\<close>
  with each such byte replaced by the three bytes of U+FFFD.
\<close>

fun runes :: "string \<Rightarrow> nat list" where
  "runes [] = []"
| "runes (c # cs) =
     (case DecodeRune (c # cs) of
        (r, sz) \<Rightarrow> r # runes (drop (sz - 1) cs))"

definition coerced :: "string \<Rightarrow> string" where
  "coerced s = concat (map EncodeRune (runes s))"

subsection \<open>Writing a JSON string (the encoder's \<open>appendString\<close>, with HTML escaping)\<close>

definition hex :: "nat \<Rightarrow> char" where
  "hex n = ''0123456789abcdef'' ! n"

definition htmlSafe :: "nat \<Rightarrow> bool" where
  "htmlSafe b \<longleftrightarrow>
     0x20 \<le> b \<and> b < 0x80 \<and> b \<noteq> 0x22 \<and> b \<noteq> 0x5C \<and> b \<noteq> 0x3C \<and> b \<noteq> 0x3E \<and> b \<noteq> 0x26"

definition escape_ascii :: "char \<Rightarrow> string" where
  "escape_ascii c =
     (let b = byte c in
      if htmlSafe b then [c]
      else if c = bsl \<or> c = dq then [bsl, c]
      else if b = 0x08 then [bsl, CHR ''b'']
      else if b = 0x0C then [bsl, CHR ''f'']
      else if b = 0x0A then [bsl, CHR ''n'']
      else if b = 0x0D then [bsl, CHR ''r'']
      else if b = 0x09 then [bsl, CHR ''t'']
      else [bsl, CHR ''u'', CHR ''0'', CHR ''0'', hex (b div 16), hex (b mod 16)])"

text \<open>
  The loop of \<open>appendString\<close>: an ASCII byte is copied or escaped; a byte that does not
  begin a well-formed sequence is replaced by the six characters of the escape for U+FFFD (a backslash and \<open>ufffd\<close>); U+2028 and
  U+2029 are escaped; any other rune is copied.
\<close>

fun escape :: "string \<Rightarrow> string" where
  "escape [] = []"
| "escape (c # cs) =
     (if byte c < 0x80 then escape_ascii c @ escape cs
      else
        (case DecodeRune (c # cs) of
           (r, sz) \<Rightarrow>
             if r = RuneError \<and> sz = 1
               then bsl # ''ufffd'' @ escape cs
             else if r = 0x2028 \<or> r = 0x2029
               then bsl # ''u202'' @ hex (r mod 16) # escape (drop (sz - 1) cs)
             else c # take (sz - 1) cs @ escape (drop (sz - 1) cs)))"

definition appendString :: "string \<Rightarrow> string" where
  "appendString src = dq # escape src @ [dq]"

subsection \<open>Reading a JSON string (the decoder's scanner and \<open>unquote\<close>)\<close>

definition hexval :: "char \<Rightarrow> nat option" where
  "hexval c =
     (let b = byte c in
      if 0x30 \<le> b \<and> b \<le> 0x39 then Some (b - 0x30)
      else if 0x61 \<le> b \<and> b \<le> 0x66 then Some (b - 0x61 + 10)
      else if 0x41 \<le> b \<and> b \<le> 0x46 then Some (b - 0x41 + 10)
      else None)"

definition hex4 :: "string \<Rightarrow> nat option" where
  "hex4 s =
     (case s of
        a # b # c # d # _ \<Rightarrow>
          (case (hexval a, hexval b, hexval c, hexval d) of
             (Some x, Some y, Some z, Some w) \<Rightarrow> Some (x * 4096 + y * 256 + z * 16 + w)
           | _ \<Rightarrow> None)
      | _ \<Rightarrow> None)"

definition getu4 :: "string \<Rightarrow> nat option" where
  "getu4 s =
     (case s of
        b # u # r \<Rightarrow> if b = bsl \<and> u = CHR ''u'' then hex4 r else None
      | _ \<Rightarrow> None)"

definition IsSurrogate :: "nat \<Rightarrow> bool" where
  "IsSurrogate r \<longleftrightarrow> 0xD800 \<le> r \<and> r < 0xE000"

definition utf16_DecodeRune :: "nat \<Rightarrow> nat \<Rightarrow> nat" where
  "utf16_DecodeRune r1 r2 =
     (if 0xD800 \<le> r1 \<and> r1 < 0xDC00 \<and> 0xDC00 \<le> r2 \<and> r2 < 0xE000
      then (r1 - 0xD800) * 1024 + (r2 - 0xDC00) + 0x10000 else RuneError)"

definition simple_escape :: "char \<Rightarrow> char option" where
  "simple_escape e =
     (if e = dq \<or> e = bsl \<or> e = CHR ''/'' then Some e
      else if e = CHR ''b'' then Some (CHR 0x08)
      else if e = CHR ''f'' then Some (CHR 0x0C)
      else if e = CHR ''n'' then Some (CHR 0x0A)
      else if e = CHR ''r'' then Some (CHR 0x0D)
      else if e = CHR ''t'' then Some (CHR 0x09)
      else None)"

definition emit :: "string \<Rightarrow> (string \<times> string) option \<Rightarrow> (string \<times> string) option" where
  "emit out r = (case r of None \<Rightarrow> None | Some (d, rest) \<Rightarrow> Some (out @ d, rest))"

text \<open>
  \<open>unquote\<close> reads a string literal from just after its opening quote: the decoded bytes
  and the input after the closing quote, or \<open>None\<close> when the literal is malformed (no
  closing quote, a raw control character, an unknown escape). Bytes that are not valid
  UTF-8 are replaced by U+FFFD, as are unpaired surrogate escapes.
\<close>

fun unquote :: "string \<Rightarrow> (string \<times> string) option" where
  "unquote [] = None"
| "unquote (c # cs) =
     (if c = dq then Some ([], cs)
      else if c = bsl then
        (case cs of
           [] \<Rightarrow> None
         | e # es \<Rightarrow>
             if e = CHR ''u'' then
               (case hex4 es of
                  None \<Rightarrow> None
                | Some rr \<Rightarrow>
                    if IsSurrogate rr then
                      (case getu4 (drop 4 es) of
                         None \<Rightarrow> emit (EncodeRune RuneError) (unquote (drop 4 es))
                       | Some rr1 \<Rightarrow>
                           if utf16_DecodeRune rr rr1 \<noteq> RuneError
                             then emit (EncodeRune (utf16_DecodeRune rr rr1))
                                    (unquote (drop 10 es))
                           else emit (EncodeRune RuneError) (unquote (drop 4 es)))
                    else emit (EncodeRune rr) (unquote (drop 4 es)))
             else
               (case simple_escape e of
                  None \<Rightarrow> None
                | Some b \<Rightarrow> emit [b] (unquote es)))
      else if byte c < 0x20 then None
      else if byte c < 0x80 then emit [c] (unquote cs)
      else
        (case DecodeRune (c # cs) of
           (rr, sz) \<Rightarrow> emit (EncodeRune rr) (unquote (drop (sz - 1) cs))))"

subsection \<open>Integers (strconv)\<close>

definition digit_char :: "nat \<Rightarrow> char" where
  "digit_char d = char_of (0x30 + d)"

fun utoa :: "nat \<Rightarrow> string" where
  "utoa n = (if n < 10 then [digit_char n] else utoa (n div 10) @ [digit_char (n mod 10)])"

declare utoa.simps [simp del]

definition FormatInt :: "int \<Rightarrow> string" where
  "FormatInt i = (if i < 0 then CHR ''-'' # utoa (nat (- i)) else utoa (nat i))"

definition is_digit :: "char \<Rightarrow> bool" where
  "is_digit c \<longleftrightarrow> 0x30 \<le> byte c \<and> byte c \<le> 0x39"

definition digits_value :: "string \<Rightarrow> nat" where
  "digits_value ds = foldl (\<lambda>a c. 10 * a + (byte c - 0x30)) 0 ds"

text \<open>
  An integer literal of JSON (an optional minus sign, then \<open>0\<close> or digits without a
  leading zero) read into a Go \<open>int\<close> of 64 bits: the value and the rest of the input, or
  \<open>None\<close> when there is no such literal or the value does not fit.
\<close>

definition scan_int64 :: "string \<Rightarrow> (int \<times> string) option" where
  "scan_int64 s =
     (let neg = (s \<noteq> [] \<and> hd s = CHR ''-'');
          body = (if neg then tl s else s);
          ds = takeWhile is_digit body;
          rest = dropWhile is_digit body;
          v = (if neg then - int (digits_value ds) else int (digits_value ds))
      in if ds = [] \<or> (hd ds = CHR ''0'' \<and> 1 < length ds) then None
         else if v < - (2 ^ 63) \<or> 2 ^ 63 \<le> v then None
         else Some (v, rest))"

subsection \<open>Time stamps (package time)\<close>

text \<open>
  The program does three things with a \<open>time.Time\<close> held in a task: it reads the clock
  into it, compares it with the zero time, and writes it to and reads it from JSON as
  RFC 3339 text with nanoseconds. A value of \<open>Time\<close> is held as that text, in the spelling
  \<open>Time.MarshalJSON\<close> produces: \<open>YYYY-MM-DDThh:mm:ss\<close>, an optional fraction without
  trailing zeros, then \<open>Z\<close> or a non-zero offset \<open>+hh:mm\<close> or \<open>-hh:mm\<close>. A text that
  is not of this form stands for a time that \<open>MarshalJSON\<close> refuses (a year outside
  0..9999).
\<close>

type_synonym Time = string

definition zero_Time :: Time where
  "zero_Time = ''0001-01-01T00:00:00Z''"

definition IsZero :: "Time \<Rightarrow> bool" where
  "IsZero t \<longleftrightarrow> t = zero_Time"

definition leap_year :: "nat \<Rightarrow> bool" where
  "leap_year y \<longleftrightarrow> y mod 4 = 0 \<and> (y mod 100 \<noteq> 0 \<or> y mod 400 = 0)"

definition days_in :: "nat \<Rightarrow> nat \<Rightarrow> nat" where
  "days_in y m =
     (if m = 2 then (if leap_year y then 29 else 28)
      else if m = 4 \<or> m = 6 \<or> m = 9 \<or> m = 11 then 30 else 31)"

definition field :: "nat \<Rightarrow> nat \<Rightarrow> string \<Rightarrow> nat option" where
  "field pos len t =
     (let ds = take len (drop pos t)
      in if length ds = len \<and> list_all is_digit ds then Some (digits_value ds) else None)"

definition frac_ok :: "string \<Rightarrow> bool" where
  "frac_ok f \<longleftrightarrow>
     f = [] \<or>
     (hd f = CHR ''.'' \<and> 1 \<le> length (tl f) \<and> length (tl f) \<le> 9 \<and> list_all is_digit (tl f)
      \<and> last f \<noteq> CHR ''0'')"

definition zone_ok :: "string \<Rightarrow> bool" where
  "zone_ok z \<longleftrightarrow>
     z = ''Z'' \<or>
     (length z = 6 \<and> (hd z = CHR ''+'' \<or> hd z = CHR ''-'') \<and> z ! 3 = CHR '':''
      \<and> (case (field 1 2 z, field 4 2 z) of
            (Some h, Some m) \<Rightarrow> h < 24 \<and> m < 60 \<and> (h \<noteq> 0 \<or> m \<noteq> 0)
          | _ \<Rightarrow> False))"

definition rfc3339_ok :: "Time \<Rightarrow> bool" where
  "rfc3339_ok t \<longleftrightarrow>
     list_all (\<lambda>c. is_digit c \<or> c \<in> set ''-:.+TZ'') t
     \<and> t ! 4 = CHR ''-'' \<and> t ! 7 = CHR ''-'' \<and> t ! 10 = CHR ''T''
     \<and> t ! 13 = CHR '':'' \<and> t ! 16 = CHR '':''
     \<and> (case (field 0 4 t, field 5 2 t, field 8 2 t, field 11 2 t, field 14 2 t, field 17 2 t) of
           (Some y, Some mo, Some d, Some h, Some mi, Some s) \<Rightarrow>
             1 \<le> mo \<and> mo \<le> 12 \<and> 1 \<le> d \<and> d \<le> days_in y mo \<and> h < 24 \<and> mi < 60 \<and> s < 60
         | _ \<Rightarrow> False)
     \<and> frac_ok (takeWhile (\<lambda>c. c = CHR ''.'' \<or> is_digit c) (drop 19 t))
     \<and> zone_ok (dropWhile (\<lambda>c. c = CHR ''.'' \<or> is_digit c) (drop 19 t))"

subsection \<open>The task and its JSON form\<close>

text \<open>
  \<^verbatim>\<open>
  type Task struct {
      Payload    string    `json:"payload"`
      RetryCount int       `json:"retry_count"`
      CreatedAt  time.Time `json:"created_at"`
  }
  \<close>
  \<open>RetryCount\<close> is a Go \<open>int\<close> (64 bits); it is modelled by \<open>int\<close>, and \<open>is_int64\<close> says
  that a value is one the Go type holds.
\<close>

record Task =
  Payload :: string
  RetryCount :: int
  CreatedAt :: Time

definition zero_Task :: Task where
  "zero_Task = \<lparr>Payload = [], RetryCount = 0, CreatedAt = zero_Time\<rparr>"

definition is_int64 :: "int \<Rightarrow> bool" where
  "is_int64 i \<longleftrightarrow> - (2 ^ 63) \<le> i \<and> i < 2 ^ 63"

datatype redis_cmd = INCR | EXPIRE | LPUSH | BRPOP | ZADD | ZRANGEBYSCORE | ZREM

text \<open>
  The errors of the program: \<open>redis.Nil\<close>, \<open>context.Canceled\<close>, any other failure of a
  store command, and the failures of \<open>json.Marshal\<close> and \<open>json.Unmarshal\<close>.
\<close>

datatype error =
    redis_Nil
  | context_Canceled
  | store_error redis_cmd
  | marshal_error
  | unmarshal_error

definition member_key :: "string \<Rightarrow> string" where
  "member_key k = dq # k @ [dq, CHR '':'']"

text \<open>
  \<open>json.Marshal(task)\<close> writes the three fields in the order of the struct, without
  white space. It fails only when the time stamp cannot be written.
\<close>

definition json_Marshal :: "Task \<Rightarrow> error + string" where
  "json_Marshal t =
     (if rfc3339_ok (CreatedAt t)
      then Inr (''{'' @ member_key ''payload'' @ appendString (Payload t)
                @ '','' @ member_key ''retry_count'' @ FormatInt (RetryCount t)
                @ '','' @ member_key ''created_at'' @ dq # CreatedAt t @ [dq] @ ''}'')
      else Inl marshal_error)"

definition expect :: "string \<Rightarrow> string \<Rightarrow> string option" where
  "expect p s = (if take (length p) s = p then Some (drop (length p) s) else None)"

text \<open>
  \<open>json.Unmarshal(data, &task)\<close>. The queue and the retry schedule are written only by
  \<open>Enqueue\<close> and \<open>scheduleRetry\<close>, so the program applies \<open>Unmarshal\<close> only to texts that
  \<open>Marshal\<close> wrote. The model reads an object of that layout (the three members in the
  order of the struct, no white space), with any string literal, integer literal and time
  stamp in the three places; every other text is answered with \<open>unmarshal_error\<close>, also
  where Go would accept it (members in another order, white space, unknown members).
\<close>

definition json_Unmarshal :: "string \<Rightarrow> error + Task" where
  "json_Unmarshal data =
     (case expect (''{'' @ member_key ''payload'' @ [dq]) data of
        None \<Rightarrow> Inl unmarshal_error
      | Some s1 \<Rightarrow>
     (case unquote s1 of
        None \<Rightarrow> Inl unmarshal_error
      | Some (payload, s2) \<Rightarrow>
     (case expect ('','' @ member_key ''retry_count'') s2 of
        None \<Rightarrow> Inl unmarshal_error
      | Some s3 \<Rightarrow>
     (case scan_int64 s3 of
        None \<Rightarrow> Inl unmarshal_error
      | Some (n, s4) \<Rightarrow>
     (case expect ('','' @ member_key ''created_at'' @ [dq]) s4 of
        None \<Rightarrow> Inl unmarshal_error
      | Some s5 \<Rightarrow>
          let ts = takeWhile (\<lambda>c. c \<noteq> dq) s5;
              s6 = dropWhile (\<lambda>c. c \<noteq> dq) s5
          in if s6 = dq # ''}'' \<and> rfc3339_ok ts
             then Inr \<lparr>Payload = payload, RetryCount = n, CreatedAt = ts\<rparr>
             else Inl unmarshal_error)))))"

section \<open>The shared store (Redis, through go-redis)\<close>

text \<open>
  The program reaches the store through seven commands. The store holds the rate-limit
  counters (a value and, once \<open>EXPIRE\<close> has set it, the instant at which the key lapses),
  the list \<open>webhook_queue\<close> (its head is the left end, where \<open>LPUSH\<close> inserts) and the
  sorted set \<open>retry_schedule\<close> (members with their scores; a member occurs once).
  \<open>failing\<close> tells which commands the store currently answers with an error (store
  unreachable, out of memory, ...); a command that fails changes nothing.

  Instants are nanoseconds since the Unix epoch. A score is the \<open>float64\<close> of a count of
  seconds, exact below \<open>2^53\<close>, and is modelled by \<open>int\<close>.
\<close>

record store =
  counters :: "string \<Rightarrow> (int \<times> int option) option"
  webhook_queue :: "string list"
  retry_schedule :: "(string \<times> int) list"
  failing :: "redis_cmd \<Rightarrow> bool"

text \<open>
  A \<open>context.Context\<close>: \<open>context.Background()\<close>, which is never cancelled, or a
  cancellable context with its state. A command issued under a cancelled context returns
  \<open>context.Canceled\<close> without reaching the store.
\<close>

datatype Context = Background | WithCancel bool

fun Done :: "Context \<Rightarrow> bool" where
  "Done Background = False"
| "Done (WithCancel cancelled) = cancelled"

definition command_error :: "Context \<Rightarrow> redis_cmd \<Rightarrow> store \<Rightarrow> error option" where
  "command_error ctx cmd s =
     (if Done ctx then Some context_Canceled
      else if failing s cmd then Some (store_error cmd)
      else None)"

definition live_counter :: "int \<Rightarrow> string \<Rightarrow> store \<Rightarrow> (int \<times> int option) option" where
  "live_counter now key s =
     (case counters s key of
        None \<Rightarrow> None
      | Some (v, None) \<Rightarrow> Some (v, None)
      | Some (v, Some e) \<Rightarrow> if e \<le> now then None else Some (v, Some e))"

text \<open>\<open>INCR key\<close>: a missing (or lapsed) key counts as 0; an expiry already set is kept.\<close>

definition Incr :: "Context \<Rightarrow> int \<Rightarrow> string \<Rightarrow> store \<Rightarrow> (error + int) \<times> store" where
  "Incr ctx now key s =
     (case command_error ctx INCR s of
        Some e \<Rightarrow> (Inl e, s)
      | None \<Rightarrow>
          (case live_counter now key s of
             None \<Rightarrow> (Inr 1, s\<lparr>counters := (counters s)(key \<mapsto> (1, None))\<rparr>)
           | Some (v, ex) \<Rightarrow> (Inr (v + 1), s\<lparr>counters := (counters s)(key \<mapsto> (v + 1, ex))\<rparr>)))"

text \<open>
  go-redis sends \<open>EXPIRE\<close> with whole seconds: a positive duration below one second is
  rounded up to 1, any other is divided by one second, truncating toward zero.
\<close>

definition formatSec :: "Duration \<Rightarrow> int" where
  "formatSec dur =
     (if 0 < dur \<and> dur < Second then 1
      else if dur < 0 then - ((- dur) div Second)
      else dur div Second)"

text \<open>
  \<open>EXPIRE key seconds\<close>: answers \<open>false\<close> for a missing key; a time to live that is not
  positive deletes the key.
\<close>

definition Expire :: "Context \<Rightarrow> int \<Rightarrow> string \<Rightarrow> Duration \<Rightarrow> store \<Rightarrow> (error + bool) \<times> store" where
  "Expire ctx now key expiration s =
     (case command_error ctx EXPIRE s of
        Some e \<Rightarrow> (Inl e, s)
      | None \<Rightarrow>
          (case live_counter now key s of
             None \<Rightarrow> (Inr False, s)
           | Some (v, ex) \<Rightarrow>
               if formatSec expiration \<le> 0
               then (Inr True, s\<lparr>counters := (counters s)(key := None)\<rparr>)
               else (Inr True,
                     s\<lparr>counters := (counters s)
                          (key \<mapsto> (v, Some (now + formatSec expiration * Second)))\<rparr>)))"

text \<open>\<open>LPUSH webhook_queue data\<close>: inserts at the head of the list.\<close>

definition LPush :: "Context \<Rightarrow> string \<Rightarrow> store \<Rightarrow> error option \<times> store" where
  "LPush ctx data s =
     (case command_error ctx LPUSH s of
        Some e \<Rightarrow> (Some e, s)
      | None \<Rightarrow> (None, s\<lparr>webhook_queue := data # webhook_queue s\<rparr>))"

text \<open>
  \<open>BRPOP webhook_queue timeout\<close>: removes and returns the element at the tail of the
  list. On an empty list the command waits. The model describes a wait during which
  nothing else happens (no producer pushes, the context is not cancelled): with a
  positive timeout the wait ends with \<open>redis.Nil\<close>; with timeout 0 (block indefinitely)
  it never ends, and the result is \<open>None\<close>.
\<close>

definition BRPop :: "Context \<Rightarrow> Duration \<Rightarrow> store \<Rightarrow> ((error + string) \<times> store) option" where
  "BRPop ctx timeout s =
     (case command_error ctx BRPOP s of
        Some e \<Rightarrow> Some (Inl e, s)
      | None \<Rightarrow>
          if webhook_queue s \<noteq> []
          then Some (Inr (last (webhook_queue s)),
                     s\<lparr>webhook_queue := butlast (webhook_queue s)\<rparr>)
          else if timeout = 0 then None
          else Some (Inl redis_Nil, s))"

text \<open>\<open>ZADD retry_schedule score member\<close>: adds the member, or moves it to the new score.\<close>

definition ZAdd :: "Context \<Rightarrow> string \<Rightarrow> int \<Rightarrow> store \<Rightarrow> error option \<times> store" where
  "ZAdd ctx member score s =
     (case command_error ctx ZADD s of
        Some e \<Rightarrow> (Some e, s)
      | None \<Rightarrow>
          (None, s\<lparr>retry_schedule :=
                     (member, score) # filter (\<lambda>(m, sc). m \<noteq> member) (retry_schedule s)\<rparr>))"

text \<open>
  \<open>ZRANGEBYSCORE retry_schedule -inf max\<close>: the members whose score is at most \<open>max\<close>,
  by increasing score, members of equal score in the order of their bytes.
\<close>

definition range_by_score :: "int \<Rightarrow> (string \<times> int) list \<Rightarrow> string list" where
  "range_by_score max_score zs =
     map fst (sort_key (\<lambda>(m, sc). (sc, m)) (filter (\<lambda>(m, sc). sc \<le> max_score) zs))"

definition ZRangeByScore :: "Context \<Rightarrow> int \<Rightarrow> store \<Rightarrow> (error + string list) \<times> store" where
  "ZRangeByScore ctx max_score s =
     (case command_error ctx ZRANGEBYSCORE s of
        Some e \<Rightarrow> (Inl e, s)
      | None \<Rightarrow> (Inr (range_by_score max_score (retry_schedule s)), s))"

text \<open>\<open>ZREM retry_schedule member\<close>.\<close>

definition ZRem :: "Context \<Rightarrow> string \<Rightarrow> store \<Rightarrow> error option \<times> store" where
  "ZRem ctx member s =
     (case command_error ctx ZREM s of
        Some e \<Rightarrow> (Some e, s)
      | None \<Rightarrow>
          (None, s\<lparr>retry_schedule := filter (\<lambda>(m, sc). m \<noteq> member) (retry_schedule s)\<rparr>))"

section \<open>Task broker (package queue)\<close>

text \<open>
  \<^verbatim>\<open>
  if task.CreatedAt.IsZero() { task.CreatedAt = time.Now() }
  data, err := json.Marshal(task)
  if err != nil { return fmt.Errorf("failed to marshal task: %w", err) }
  return q.rdb.LPush(ctx, "webhook_queue", data).Err()
  \<close>
  \<open>now\<close> is the reading of the clock. The task is passed by value: the caller's copy is
  not changed.
\<close>

definition stamped :: "Time \<Rightarrow> Task \<Rightarrow> Task" where
  "stamped now task = (if IsZero (CreatedAt task) then task\<lparr>CreatedAt := now\<rparr> else task)"

definition Enqueue :: "Context \<Rightarrow> Time \<Rightarrow> Task \<Rightarrow> store \<Rightarrow> error option \<times> store" where
  "Enqueue ctx now task s =
     (case json_Marshal (stamped now task) of
        Inl e \<Rightarrow> (Some e, s)
      | Inr data \<Rightarrow> LPush ctx data s)"

text \<open>
  \<^verbatim>\<open>
  result, err := q.rdb.BRPop(ctx, 0, "webhook_queue").Result()
  if err != nil { return nil, err }
  var task Task
  err = json.Unmarshal([]byte(result[1]), &task)
  if err != nil { return nil, fmt.Errorf("failed to unmarshal task: %w", err) }
  return &task, nil
  \<close>
  The result is \<open>None\<close> when the call does not return.
\<close>

definition Dequeue :: "Context \<Rightarrow> store \<Rightarrow> ((error + Task) \<times> store) option" where
  "Dequeue ctx s =
     (case BRPop ctx 0 s of
        None \<Rightarrow> None
      | Some (Inl e, s') \<Rightarrow> Some (Inl e, s')
      | Some (Inr data, s') \<Rightarrow>
          (case json_Unmarshal data of
             Inl e \<Rightarrow> Some (Inl e, s')
           | Inr task \<Rightarrow> Some (Inr task, s')))"

section \<open>Admission control (package ratelimit)\<close>

datatype Limiter = FixedWindowLimiter (limit: int) (window: Duration) | NoOpLimiter

definition NewFixedWindowLimiter :: "int \<Rightarrow> Duration \<Rightarrow> Limiter" where
  "NewFixedWindowLimiter l_limit l_window = FixedWindowLimiter l_limit l_window"

text \<open>
  \<^verbatim>\<open>
  key := "rate_limit:" + userID
  count, err := l.rdb.Incr(ctx, key).Result()
  if err != nil { return false, err }
  if count == 1 { l.rdb.Expire(ctx, key, l.window) }
  if count > int64(l.limit) { return false, nil }
  return true, nil
  \<close>
  The result of \<open>Expire\<close> is not looked at. Both commands of one call are taken to reach
  the store at the instant \<open>now\<close>. The no-op limiter allows every request and does not
  touch the store.
\<close>

definition counter_key :: "string \<Rightarrow> string" where
  "counter_key userID = ''rate_limit:'' @ userID"

fun Allow :: "Limiter \<Rightarrow> Context \<Rightarrow> int \<Rightarrow> string \<Rightarrow> store \<Rightarrow> (bool \<times> error option) \<times> store" where
  "Allow (FixedWindowLimiter l_limit l_window) ctx now userID s =
     (let key = counter_key userID
      in case Incr ctx now key s of
           (Inl err, s1) \<Rightarrow> ((False, Some err), s1)
         | (Inr count, s1) \<Rightarrow>
             let s2 = (if count = 1 then snd (Expire ctx now key l_window s1) else s1)
             in if count > l_limit then ((False, None), s2) else ((True, None), s2))"
| "Allow NoOpLimiter ctx now userID s = ((True, None), s)"

section \<open>Task processing (package worker)\<close>

text \<open>
  The processor holds the backoff strategy behind the interface \<open>backoff.Strategy\<close>: a
  function from the retry count to a duration.
\<close>

record Processor =
  backoff :: "int \<Rightarrow> Duration"

definition NewProcessor :: "(int \<Rightarrow> Duration) \<Rightarrow> Processor" where
  "NewProcessor b = \<lparr>backoff = b\<rparr>"

text \<open>
  \<^verbatim>\<open>
  data, err := json.Marshal(task)
  if err != nil { log.Printf(...); return }
  executeAt := time.Now().Add(delay).Unix()
  err = p.rdb.ZAdd(ctx, "retry_schedule", redis.Z{Score: float64(executeAt), Member: data}).Err()
  if err != nil { log.Printf(...) }
  \<close>
  \<open>now\<close> is the reading of the clock in nanoseconds; \<open>Unix()\<close> is the number of whole
  seconds.
\<close>

definition scheduleRetry :: "Context \<Rightarrow> int \<Rightarrow> Task \<Rightarrow> Duration \<Rightarrow> store \<Rightarrow> store" where
  "scheduleRetry ctx now task delay s =
     (case json_Marshal task of
        Inl e \<Rightarrow> s
      | Inr data \<Rightarrow>
          let executeAt = (now + delay) div Second
          in snd (ZAdd ctx data executeAt s))"

text \<open>
  \<^verbatim>\<open>
  if task.RetryCount >= 5 { fmt.Printf("Dead Letter: ..."); return }
  waitDuration := p.backoff.GetNextInterval(task.RetryCount)
  task.RetryCount++
  p.scheduleRetry(ctx, task, waitDuration)
  \<close>
  The task is held through a pointer: the function returns it as it leaves it.
\<close>

definition handleFailure :: "Processor \<Rightarrow> Context \<Rightarrow> int \<Rightarrow> Task \<Rightarrow> store \<Rightarrow> Task \<times> store" where
  "handleFailure p ctx now task s =
     (if RetryCount task \<ge> 5 then (task, s)
      else
        let waitDuration = backoff p (RetryCount task);
            task' = task\<lparr>RetryCount := RetryCount task + 1\<rparr>
        in (task', scheduleRetry ctx now task' waitDuration s))"

text \<open>
  \<open>Process\<close>: the delivery attempt (\<open>simulateWebhookCall\<close>, which draws its outcome at
  random) succeeds or fails; \<open>success\<close> is its outcome.
\<close>

definition Process :: "Processor \<Rightarrow> Context \<Rightarrow> bool \<Rightarrow> int \<Rightarrow> Task \<Rightarrow> store \<Rightarrow> Task \<times> store" where
  "Process p ctx success now task s =
     (if success then (task, s) else handleFailure p ctx now task s)"

section \<open>The worker process (cmd/worker)\<close>

text \<open>
  One pass of the loop of \<open>startConsumer\<close>: the worker stops when the context is done or
  the dequeue was cancelled, goes on after \<open>redis.Nil\<close> and (after a pause) after any
  other error, and otherwise processes the task. \<open>Waiting\<close> is a pass whose \<open>Dequeue\<close>
  does not return.
\<close>

datatype pass = Stopped | Waiting | Next store

definition startConsumer_pass :: "Processor \<Rightarrow> Context \<Rightarrow> bool \<Rightarrow> int \<Rightarrow> store \<Rightarrow> pass" where
  "startConsumer_pass p ctx success now s =
     (if Done ctx then Stopped
      else
        (case Dequeue ctx s of
           None \<Rightarrow> Waiting
         | Some (Inl err, s') \<Rightarrow>
             if err = context_Canceled then Stopped
             else if err = redis_Nil then Next s'
             else Next s'
         | Some (Inr task, s') \<Rightarrow> Next (snd (Process p ctx success now task s'))))"

text \<open>
  The body of the inner loop of \<open>startRetryPoller\<close>:
  \<^verbatim>\<open>
  for _, member := range results {
      var task queue.Task
      _ = json.Unmarshal([]byte(member), &task)
      q.Enqueue(context.Background(), task)
      rdb.ZRem(context.Background(), "retry_schedule", member)
  }
  \<close>
  The three results are dropped. When \<open>Unmarshal\<close> fails, \<open>task\<close> keeps its zero value.
  \<open>now\<close> is the clock as \<open>Enqueue\<close> reads it.
\<close>

fun promote :: "Time \<Rightarrow> string list \<Rightarrow> store \<Rightarrow> store" where
  "promote now [] s = s"
| "promote now (member # results) s =
     (let task = (case json_Unmarshal member of Inl e \<Rightarrow> zero_Task | Inr t \<Rightarrow> t);
          s1 = snd (Enqueue Background now task s);
          s2 = snd (ZRem Background member s1)
      in promote now results s2)"

text \<open>
  What the body of the loop pushes onto the broker for a member: the task read from the
  member (the zero task when it cannot be read), written again by \<open>Enqueue\<close>; nothing
  when \<open>Enqueue\<close> cannot write it.
\<close>

definition requeued :: "Time \<Rightarrow> string \<Rightarrow> string list" where
  "requeued now member =
     (case json_Marshal (stamped now (case json_Unmarshal member of
                                        Inl e \<Rightarrow> zero_Task | Inr t \<Rightarrow> t)) of
        Inl e \<Rightarrow> []
      | Inr data \<Rightarrow> [data])"

text \<open>
  One tick of the poller: the due members are those with a score up to
  \<open>time.Now().Unix()\<close>; on an error of the query the tick is over.
\<close>

definition poll_tick :: "int \<Rightarrow> Time \<Rightarrow> store \<Rightarrow> store" where
  "poll_tick now_ns now s =
     (case ZRangeByScore Background (now_ns div Second) s of
        (Inl err, s') \<Rightarrow> s'
      | (Inr results, s') \<Rightarrow> if length results = 0 then s' else promote now results s')"

text \<open>The poller over a series of ticks, each with its readings of the clock.\<close>

fun startRetryPoller :: "(int \<times> Time) list \<Rightarrow> store \<Rightarrow> store" where
  "startRetryPoller [] s = s"
| "startRetryPoller ((now_ns, now) # ticks) s = startRetryPoller ticks (poll_tick now_ns now s)"

text \<open>The processor of the worker's \<open>main\<close>, on a platform with conversion \<open>oor\<close>.\<close>

definition worker_processor :: "(real \<Rightarrow> int) \<Rightarrow> Processor" where
  "worker_processor oor = NewProcessor (GetNextInterval oor worker_strategy)"

section \<open>The HTTP entry point (cmd/api)\<close>

record WebhookRequest =
  UserID :: string
  Data :: string

datatype response =
    MethodNotAllowed
  | BadRequest
  | InternalServerError
  | TooManyRequests
  | Accepted

text \<open>
  The handler of \<open>POST /send\<close>. \<open>body\<close> is the request body as decoded by
  \<open>json.NewDecoder(r.Body).Decode(&req)\<close>, or \<open>None\<close> when it does not decode; \<open>Data\<close>
  holds the bytes of the \<open>data\<close> member (\<open>json.RawMessage\<close>). \<open>ctx\<close> is the context of
  the request.
\<close>

definition api_limiter :: Limiter where
  "api_limiter = NewFixedWindowLimiter 5 (60 * Second)"

definition send_handler ::
  "Limiter \<Rightarrow> Context \<Rightarrow> int \<Rightarrow> Time \<Rightarrow> string \<Rightarrow> WebhookRequest option \<Rightarrow> store \<Rightarrow> response \<times> store" where
  "send_handler limiter ctx now_ns now http_method body s =
     (if http_method \<noteq> ''POST'' then (MethodNotAllowed, s)
      else
        (case body of
           None \<Rightarrow> (BadRequest, s)
         | Some req \<Rightarrow>
             if UserID req = [] then (BadRequest, s)
             else
               (case Allow limiter ctx now_ns (UserID req) s of
                  ((allowed, Some err), s1) \<Rightarrow> (InternalServerError, s1)
                | ((allowed, None), s1) \<Rightarrow>
                    if \<not> allowed then (TooManyRequests, s1)
                    else
                      let newTask = \<lparr>Payload = Data req, RetryCount = 0, CreatedAt = zero_Time\<rparr>
                      in (case Enqueue ctx now newTask s1 of
                            (Some err, s2) \<Rightarrow> (InternalServerError, s2)
                          | (None, s2) \<Rightarrow> (Accepted, s2)))))"

section \<open>Runs\<close>

text \<open>
  Sequences of calls, used to state properties of more than one call: \<open>n\<close> successive
  calls of \<open>Dequeue\<close> (up to the first that does not return), and successive requests
  to the limiter, each with its instant and its user; \<open>answers_to\<close> selects from the
  answers those given to one user.
\<close>

fun Dequeue_n :: "nat \<Rightarrow> Context \<Rightarrow> store \<Rightarrow> (error + Task) list" where
  "Dequeue_n 0 ctx s = []"
| "Dequeue_n (Suc n) ctx s =
     (case Dequeue ctx s of
        None \<Rightarrow> []
      | Some (r, s') \<Rightarrow> r # Dequeue_n n ctx s')"

fun Allow_requests :: "Limiter \<Rightarrow> Context \<Rightarrow> (int \<times> string) list \<Rightarrow> store \<Rightarrow> (bool \<times> error option) list" where
  "Allow_requests l ctx [] s = []"
| "Allow_requests l ctx ((now, userID) # requests) s =
     (case Allow l ctx now userID s of
        (r, s') \<Rightarrow> r # Allow_requests l ctx requests s')"

definition answers_to :: "string \<Rightarrow> (int \<times> string) list \<Rightarrow> (bool \<times> error option) list \<Rightarrow> (bool \<times> error option) list" where
  "answers_to userID requests results =
     map snd (filter (\<lambda>((now, u), r). u = userID) (zip requests results))"

text \<open>
  The task as the worker holds it after \<open>n\<close> failed deliveries in a row; between two
  deliveries it travels through the schedule and the broker, which hand on its retry
  count.
\<close>

fun after_failures :: "nat \<Rightarrow> Processor \<Rightarrow> Context \<Rightarrow> int \<Rightarrow> Task \<Rightarrow> store \<Rightarrow> Task" where
  "after_failures 0 p ctx now task s = task"
| "after_failures (Suc n) p ctx now task s =
     fst (handleFailure p ctx now (after_failures n p ctx now task s) s)"

text \<open>
  One round of a task whose delivery fails: a pass of a worker (started at \<open>now_ns\<close>)
  whose delivery attempt fails, then a tick of the poller (at \<open>tick_ns\<close>).
\<close>

definition failed_round :: "Processor \<Rightarrow> int \<Rightarrow> int \<Rightarrow> Time \<Rightarrow> store \<Rightarrow> store" where
  "failed_round p now_ns tick_ns now s =
     (case startConsumer_pass p (WithCancel False) False now_ns s of
        Next s' \<Rightarrow> poll_tick tick_ns now s'
      | _ \<Rightarrow> s)"

text \<open>
  The poller's ticker has a period of one second (\<open>time.NewTicker(1 * time.Second)\<close>):
  \<open>spaced prev ts\<close> says that the instants \<open>ts\<close> follow each other, and the first follows
  \<open>prev\<close>, by at most one second.
\<close>

fun spaced :: "int \<Rightarrow> int list \<Rightarrow> bool" where
  "spaced prev [] = True"
| "spaced prev (t # ts) = (t \<le> prev + Second \<and> spaced t ts)"

text \<open>The number a user's counter shows at an instant (0 when there is no live counter).\<close>

definition current_count :: "int \<Rightarrow> string \<Rightarrow> store \<Rightarrow> int" where
  "current_count now userID s =
     (case live_counter now (counter_key userID) s of None \<Rightarrow> 0 | Some (v, ex) \<Rightarrow> v)"

text \<open>A store that holds nothing and answers every command.\<close>

definition empty_store :: store where
  "empty_store =
     \<lparr>counters = (\<lambda>key. None), webhook_queue = [], retry_schedule = [],
      failing = (\<lambda>cmd. False)\<rparr>"

text \<open>A task, a request and an instant used as sample inputs.\<close>

definition sample_time :: Time where
  "sample_time = ''2024-05-06T07:08:09Z''"

definition task_x :: Task where
  "task_x = \<lparr>Payload = ''x'', RetryCount = 0, CreatedAt = sample_time\<rparr>"

definition request_x :: WebhookRequest where
  "request_x = \<lparr>UserID = ''u1'', Data = ''{}''\<rparr>"

text \<open>The JSON text of a task with payload \<open>p\<close>, retry count \<open>n\<close> (in digits) and time \<open>t\<close>.\<close>

definition wire :: "string \<Rightarrow> string \<Rightarrow> string \<Rightarrow> string" where
  "wire p n t =
     ''{'' @ member_key ''payload'' @ [dq] @ p @ [dq] @ '','' @ member_key ''retry_count'' @ n
     @ '','' @ member_key ''created_at'' @ [dq] @ t @ [dq] @ ''}''"

definition task_y :: Task where
  "task_y = \<lparr>Payload = ''y'', RetryCount = 0, CreatedAt = sample_time\<rparr>"

text \<open>A store that holds one due retry entry and refuses \<open>LPUSH\<close>.\<close>

definition push_refused :: store where
  "push_refused =
     empty_store\<lparr>retry_schedule := [(wire ''x'' ''1'' sample_time, 10)],
                 failing := (\<lambda>cmd. cmd = LPUSH)\<rparr>"

text \<open>
  A task as the handler builds it from a request whose \<open>data\<close> member is a JSON string
  holding the single byte \<open>0xFF\<close>, which is not valid UTF-8.
\<close>

definition task_ff :: Task where
  "task_ff = \<lparr>Payload = [dq, CHR 0xFF, dq], RetryCount = 0, CreatedAt = zero_Time\<rparr>"

section \<open>Unfolding the model on concrete inputs\<close>

lemmas codec_defs = byte_def dq_def bsl_def RuneError_def seq_size_def accept_lo_def accept_hi_def
  contb_def DecodeRune_def EncodeRune_def hex_def htmlSafe_def escape_ascii_def appendString_def
  hexval_def hex4_def getu4_def IsSurrogate_def utf16_DecodeRune_def simple_escape_def emit_def
  digit_char_def FormatInt_def is_digit_def digits_value_def scan_int64_def
  zero_Time_def IsZero_def leap_year_def days_in_def field_def frac_ok_def zone_ok_def
  rfc3339_ok_def member_key_def json_Marshal_def json_Unmarshal_def expect_def
  char_of_eq_iff utoa.simps

lemmas store_defs = command_error_def live_counter_def Incr_def formatSec_def Expire_def LPush_def
  BRPop_def ZAdd_def range_by_score_def ZRangeByScore_def ZRem_def stamped_def Enqueue_def
  Dequeue_def counter_key_def NewFixedWindowLimiter_def empty_store_def

lemmas worker_defs = NewProcessor_def scheduleRetry_def handleFailure_def Process_def
  startConsumer_pass_def poll_tick_def worker_processor_def failed_round_def zero_Task_def

section \<open>Properties of the backoff policy\<close>

lemma GetNextInterval_le_Max: "GetNextInterval oor s n \<le> Max_interval s"
  by (simp add: GetNextInterval_def Let_def)

lemma worker_strategy_simps:
  "Base worker_strategy = 1000000000" "Factor worker_strategy = 2"
  "Max_interval worker_strategy = 3600000000000"
  by (simp_all add: worker_strategy_def NewExponentialStrategy_def Second_def Hour_def
      Nanosecond_def)

lemma worker_processor_backoff:
  "backoff (worker_processor oor) = GetNextInterval oor worker_strategy"
  by (simp add: worker_processor_def NewProcessor_def)

lemma GetNextInterval_worker_small:
  "GetNextInterval oor worker_strategy 0 = 1000000000"
  "GetNextInterval oor worker_strategy 1 = 2000000000"
  "GetNextInterval oor worker_strategy 2 = 4000000000"
  "GetNextInterval oor worker_strategy 3 = 8000000000"
  "GetNextInterval oor worker_strategy 4 = 16000000000"
  by (simp_all add: GetNextInterval_def Let_def worker_strategy_simps float64_to_int64_def
      fits_int64_def trunc_toward_zero_def)

text \<open>
  C2. The claim is that \<open>GetNextInterval\<close> is non-decreasing in the attempt count and
  saturates at the cap \<open>s.Max\<close> instead of leaving \<open>[0, s.Max]\<close> for large counts. The
  code clamps only after the conversion to \<open>int64\<close>: with the worker's strategy on amd64,
  attempt count 33 still yields the cap of one hour, and attempt count 34, where
  \<open>10^9 * 2^34\<close> exceeds \<open>2^63\<close>, yields the most negative duration, which the test
  \<open>interval > s.Max\<close> lets through.
\<close>

theorem GetNextInterval_overflow_amd64:
  "GetNextInterval oor_amd64 worker_strategy 33 = 1 * Hour
   \<and> GetNextInterval oor_amd64 worker_strategy 34 = - 9223372036854775808
   \<and> GetNextInterval oor_amd64 worker_strategy 34 < 0
   \<and> GetNextInterval oor_amd64 worker_strategy 34 < GetNextInterval oor_amd64 worker_strategy 33"
  by (simp add: GetNextInterval_def Let_def worker_strategy_simps float64_to_int64_def
      fits_int64_def trunc_toward_zero_def oor_amd64_def Hour_def Second_def Nanosecond_def)

section \<open>Properties of the task broker\<close>

lemma Enqueue_None:
  assumes "Enqueue ctx now t s = (None, s')"
  shows "\<exists>data. json_Marshal (stamped now t) = Inr data
           \<and> s' = s\<lparr>webhook_queue := data # webhook_queue s\<rparr>"
  using assms
  by (auto simp: Enqueue_def LPush_def split: sum.splits option.splits)

lemma Enqueue_Some:
  assumes "Enqueue ctx now t s = (Some e, s')"
  shows "s' = s"
  using assms
  by (auto simp: Enqueue_def LPush_def split: sum.splits option.splits)

lemma Dequeue_tail:
  assumes "\<not> Done ctx" "\<not> failing s BRPOP" "webhook_queue s = q @ [d]"
  shows "Dequeue ctx s = Some (json_Unmarshal d, s\<lparr>webhook_queue := q\<rparr>)"
  using assms
  by (cases "json_Unmarshal d") (simp_all add: Dequeue_def BRPop_def command_error_def)

lemma Dequeue_n_all:
  assumes "\<not> Done ctx" "\<not> failing s BRPOP" "webhook_queue s = q"
  shows "Dequeue_n (length q) ctx s = map json_Unmarshal (rev q)"
  using assms
proof (induction q arbitrary: s rule: rev_induct)
  case Nil
  then show ?case by simp
next
  case (snoc d q)
  have deq: "Dequeue ctx s = Some (json_Unmarshal d, s\<lparr>webhook_queue := q\<rparr>)"
    using snoc.prems by (rule Dequeue_tail)
  have "Dequeue_n (length q) ctx (s\<lparr>webhook_queue := q\<rparr>) = map json_Unmarshal (rev q)"
    using snoc.prems by (intro snoc.IH) simp_all
  then show ?case by (simp add: deq)
qed

text \<open>
  C8. Two tasks are enqueued one after the other on a broker that already holds the
  elements \<open>webhook_queue s\<close>. The second is inserted in front of the first at the head
  of the list, and successive calls of \<open>Dequeue\<close> take from the tail: they return first
  what was there before, oldest first, then the task enqueued first, then the task
  enqueued second (each as \<open>Unmarshal\<close> reads its serialised form).
\<close>

theorem broker_fifo:
  assumes "Enqueue ctx1 now1 a s = (None, s1)"
    and "Enqueue ctx2 now2 b s1 = (None, s2)"
    and "\<not> Done ctx" and "\<not> failing s BRPOP"
  shows "\<exists>da db. json_Marshal (stamped now1 a) = Inr da
           \<and> json_Marshal (stamped now2 b) = Inr db
           \<and> webhook_queue s2 = db # da # webhook_queue s
           \<and> Dequeue_n (length (webhook_queue s) + 2) ctx s2 =
               map json_Unmarshal (rev (webhook_queue s))
                 @ [json_Unmarshal da, json_Unmarshal db]"
proof -
  obtain da where da: "json_Marshal (stamped now1 a) = Inr da"
    and s1: "s1 = s\<lparr>webhook_queue := da # webhook_queue s\<rparr>"
    using Enqueue_None [OF assms(1)] by blast
  obtain db where db: "json_Marshal (stamped now2 b) = Inr db"
    and s2: "s2 = s1\<lparr>webhook_queue := db # webhook_queue s1\<rparr>"
    using Enqueue_None [OF assms(2)] by blast
  have q2: "webhook_queue s2 = db # da # webhook_queue s"
    by (simp add: s1 s2)
  have f2: "\<not> failing s2 BRPOP"
    using assms(4) by (simp add: s1 s2)
  have "Dequeue_n (length (webhook_queue s2)) ctx s2 = map json_Unmarshal (rev (webhook_queue s2))"
    using assms(3) f2 by (rule Dequeue_n_all) simp
  then have "Dequeue_n (length (webhook_queue s) + 2) ctx s2 =
      map json_Unmarshal (rev (webhook_queue s)) @ [json_Unmarshal da, json_Unmarshal db]"
    by (simp add: q2)
  with da db q2 show ?thesis by blast
qed

theorem broker_fifo_witness:
  "Enqueue Background sample_time task_x empty_store
     = (None, snd (Enqueue Background sample_time task_x empty_store))
   \<and> Enqueue Background sample_time task_y (snd (Enqueue Background sample_time task_x empty_store))
     = (None, snd (Enqueue Background sample_time task_y
                     (snd (Enqueue Background sample_time task_x empty_store))))
   \<and> \<not> Done (WithCancel False) \<and> \<not> failing empty_store BRPOP
   \<and> Dequeue_n 2 (WithCancel False)
        (snd (Enqueue Background sample_time task_y
               (snd (Enqueue Background sample_time task_x empty_store))))
     = [Inr task_x, Inr task_y]"
proof -
  let ?s1 = "snd (Enqueue Background sample_time task_x empty_store)"
  let ?s2 = "snd (Enqueue Background sample_time task_y ?s1)"
  have mx: "json_Marshal (stamped sample_time task_x) = Inr (wire ''x'' ''0'' sample_time)"
    and my: "json_Marshal (stamped sample_time task_y) = Inr (wire ''y'' ''0'' sample_time)"
    by (simp_all add: task_x_def task_y_def sample_time_def wire_def stamped_def codec_defs)
  have ux: "json_Unmarshal (wire ''x'' ''0'' sample_time) = Inr task_x"
    and uy: "json_Unmarshal (wire ''y'' ''0'' sample_time) = Inr task_y"
    by (simp_all add: task_x_def task_y_def sample_time_def wire_def codec_defs)
  have h1: "Enqueue Background sample_time task_x empty_store = (None, ?s1)"
    by (simp add: Enqueue_def mx LPush_def command_error_def empty_store_def)
  have h2: "Enqueue Background sample_time task_y ?s1 = (None, ?s2)"
    by (simp add: Enqueue_def mx my LPush_def command_error_def empty_store_def)
  have h3: "\<not> Done (WithCancel False)" and h4: "\<not> failing empty_store BRPOP"
    by (simp_all add: empty_store_def)
  have len: "length (webhook_queue empty_store) + 2 = 2" and q0: "webhook_queue empty_store = []"
    by (simp_all add: empty_store_def)
  from broker_fifo [OF h1 h2 h3 h4] obtain da db
    where a: "json_Marshal (stamped sample_time task_x) = Inr da"
      and b: "json_Marshal (stamped sample_time task_y) = Inr db"
      and c: "Dequeue_n (length (webhook_queue empty_store) + 2) (WithCancel False) ?s2 =
             map json_Unmarshal (rev (webhook_queue empty_store))
               @ [json_Unmarshal da, json_Unmarshal db]"
    by blast
  from a mx have da: "da = wire ''x'' ''0'' sample_time" by simp
  from b my have db: "db = wire ''y'' ''0'' sample_time" by simp
  have rhs: "map json_Unmarshal (rev (webhook_queue empty_store))
      @ [json_Unmarshal da, json_Unmarshal db] = [Inr task_x, Inr task_y]"
    by (simp add: q0 da db ux uy)
  from c have "Dequeue_n 2 (WithCancel False) ?s2 = [Inr task_x, Inr task_y]"
    unfolding len rhs .
  with h1 h2 h3 h4 show ?thesis by blast
qed

text \<open>
  C3. The claim is that \<open>Dequeue\<close> waits at most one heartbeat interval and then answers
  with the distinguished result "no task, try again" (\<open>redis.Nil\<close>, which \<open>startConsumer\<close>
  tests for). \<open>Dequeue\<close> passes the timeout 0 to \<open>BRPOP\<close>: on an empty queue, with a live
  context, the call does not return and the worker's pass waits; and no call of \<open>Dequeue\<close>
  ever returns \<open>redis.Nil\<close>.
\<close>

theorem Dequeue_never_times_out:
  "Dequeue (WithCancel False) empty_store = None
   \<and> startConsumer_pass p (WithCancel False) success now empty_store = Waiting
   \<and> Dequeue ctx s \<noteq> Some (Inl redis_Nil, s')"
proof -
  have "Dequeue ctx s \<noteq> Some (Inl redis_Nil, s')"
    by (auto simp: Dequeue_def BRPop_def command_error_def json_Unmarshal_def Let_def
        split: option.splits sum.splits prod.splits if_splits)
  then show ?thesis
    by (simp add: Dequeue_def BRPop_def command_error_def empty_store_def startConsumer_pass_def)
qed

section \<open>Properties of task processing\<close>

text \<open>
  C9. With the worker's strategy (one second, factor 2.0, one hour) the backoff function
  yields 1s, 2s and 4s for the attempt counts 0, 1 and 2, on every platform. On a failure
  below the retry bound, \<open>handleFailure\<close> computes the delay from the retry count the
  task holds on entry and only then increments the count: the entry it schedules carries
  the incremented count and the delay of the count before.
\<close>

theorem backoff_delay_uses_count_before_increment:
  "GetNextInterval oor worker_strategy 0 = 1 * Second
   \<and> GetNextInterval oor worker_strategy 1 = 2 * Second
   \<and> GetNextInterval oor worker_strategy 2 = 4 * Second
   \<and> (RetryCount task < 5 \<longrightarrow>
        handleFailure p ctx now task s =
          (task\<lparr>RetryCount := RetryCount task + 1\<rparr>,
           scheduleRetry ctx now (task\<lparr>RetryCount := RetryCount task + 1\<rparr>)
             (backoff p (RetryCount task)) s))
   \<and> (RetryCount task = 0 \<longrightarrow>
        snd (handleFailure (worker_processor oor) ctx now task s) =
          scheduleRetry ctx now (task\<lparr>RetryCount := 1\<rparr>) (1 * Second) s)
   \<and> (RetryCount task = 1 \<longrightarrow>
        snd (handleFailure (worker_processor oor) ctx now task s) =
          scheduleRetry ctx now (task\<lparr>RetryCount := 2\<rparr>) (2 * Second) s)
   \<and> (RetryCount task = 2 \<longrightarrow>
        snd (handleFailure (worker_processor oor) ctx now task s) =
          scheduleRetry ctx now (task\<lparr>RetryCount := 3\<rparr>) (4 * Second) s)"
  by (simp add: GetNextInterval_worker_small handleFailure_def Let_def worker_processor_backoff
      Second_def Nanosecond_def)

theorem backoff_delay_uses_count_before_increment_witness:
  "RetryCount (task_x\<lparr>RetryCount := 2\<rparr>) = 2
   \<and> retry_schedule
        (snd (handleFailure (worker_processor oor_amd64) Background 500000000
                (task_x\<lparr>RetryCount := 2\<rparr>) empty_store))
      = [(wire ''x'' ''3'' sample_time, 4)]"
proof -
  have h: "RetryCount (task_x\<lparr>RetryCount := 2\<rparr>) = 2"
    by simp
  have "snd (handleFailure (worker_processor oor_amd64) Background 500000000
               (task_x\<lparr>RetryCount := 2\<rparr>) empty_store)
        = scheduleRetry Background 500000000 (task_x\<lparr>RetryCount := 2, RetryCount := 3\<rparr>)
            (4 * Second) empty_store"
    using backoff_delay_uses_count_before_increment
      [where oor = oor_amd64 and task = "task_x\<lparr>RetryCount := 2\<rparr>" and ctx = Background
         and now = 500000000 and s = empty_store and p = "worker_processor oor_amd64"] h
    by (simp add: worker_processor_backoff GetNextInterval_worker_small Second_def Nanosecond_def)
  then show ?thesis
    by (simp add: task_x_def sample_time_def wire_def scheduleRetry_def store_defs codec_defs
        Second_def Nanosecond_def)
qed

text \<open>
  C1, as amended. The failure branch schedules a retry exactly when the retry count the
  task holds on entry is below 5, and otherwise leaves the store as it is (the task is on
  neither the broker nor the schedule). Each failure below the bound adds one to the
  count, so a task that entered with count 0 holds count \<open>min n 5\<close> after \<open>n\<close> failures
  in a row: its first five failures each schedule a retry, and it is dropped at the sixth.
\<close>

lemma after_failures_count:
  "RetryCount task = 0 \<Longrightarrow>
     after_failures n p ctx now task s = task\<lparr>RetryCount := min (int n) 5\<rparr>"
  by (induction n) (auto simp: handleFailure_def Let_def)

theorem retry_while_count_below_five:
  "(RetryCount task < 5 \<longrightarrow>
      handleFailure p ctx now task s =
        (task\<lparr>RetryCount := RetryCount task + 1\<rparr>,
         scheduleRetry ctx now (task\<lparr>RetryCount := RetryCount task + 1\<rparr>)
           (backoff p (RetryCount task)) s))
   \<and> (RetryCount task < 5 \<and> json_Marshal (task\<lparr>RetryCount := RetryCount task + 1\<rparr>) = Inr data
        \<and> \<not> Done ctx \<and> \<not> failing s ZADD \<longrightarrow>
      (data, (now + backoff p (RetryCount task)) div Second)
        \<in> set (retry_schedule (snd (handleFailure p ctx now task s)))
      \<and> webhook_queue (snd (handleFailure p ctx now task s)) = webhook_queue s)
   \<and> (\<not> RetryCount task < 5 \<longrightarrow> handleFailure p ctx now task s = (task, s))
   \<and> (RetryCount task = 0 \<longrightarrow>
        after_failures n p ctx now task s = task\<lparr>RetryCount := min (int n) 5\<rparr>)
   \<and> (RetryCount task = 0 \<and> n < 5 \<longrightarrow>
        snd (handleFailure p ctx now (after_failures n p ctx now task s) s) =
          scheduleRetry ctx now ((after_failures n p ctx now task s)\<lparr>RetryCount := int n + 1\<rparr>)
            (backoff p (int n)) s)
   \<and> (RetryCount task = 0 \<and> 5 \<le> n \<longrightarrow>
        snd (handleFailure p ctx now (after_failures n p ctx now task s) s) = s)"
proof -
  have a: "RetryCount task = 0 \<Longrightarrow>
      after_failures n p ctx now task s = task\<lparr>RetryCount := min (int n) 5\<rparr>"
    by (rule after_failures_count)
  show ?thesis
    using a
    by (auto simp: handleFailure_def Let_def scheduleRetry_def ZAdd_def command_error_def)
qed

lemma task_x_marshals: "\<exists>data. json_Marshal (task_x\<lparr>RetryCount := 5\<rparr>) = Inr data"
  by (simp add: task_x_def sample_time_def json_Marshal_def codec_defs)

theorem retry_while_count_below_five_witness:
  "RetryCount task_x = 0
   \<and> after_failures 4 (worker_processor oor_amd64) Background 0 task_x empty_store
       = task_x\<lparr>RetryCount := 4\<rparr>
   \<and> retry_schedule
        (snd (handleFailure (worker_processor oor_amd64) Background 0
               (task_x\<lparr>RetryCount := 4\<rparr>) empty_store)) \<noteq> []
   \<and> handleFailure (worker_processor oor_amd64) Background 0
        (task_x\<lparr>RetryCount := 5\<rparr>) empty_store = (task_x\<lparr>RetryCount := 5\<rparr>, empty_store)"
proof -
  have h: "RetryCount task_x = 0"
    by (simp add: task_x_def)
  obtain data where d: "json_Marshal (task_x\<lparr>RetryCount := 5\<rparr>) = Inr data"
    using task_x_marshals by blast
  have "after_failures 4 (worker_processor oor_amd64) Background 0 task_x empty_store
      = task_x\<lparr>RetryCount := min (int 4) 5\<rparr>"
    using h retry_while_count_below_five
      [where task = task_x and p = "worker_processor oor_amd64" and ctx = Background
         and now = 0 and s = empty_store and n = 4 and data = data]
    by blast
  then have a4: "after_failures 4 (worker_processor oor_amd64) Background 0 task_x empty_store
      = task_x\<lparr>RetryCount := 4\<rparr>"
    by simp
  have pre: "RetryCount (task_x\<lparr>RetryCount := 4\<rparr>) < 5
       \<and> json_Marshal (task_x\<lparr>RetryCount := 4\<rparr>
            \<lparr>RetryCount := RetryCount (task_x\<lparr>RetryCount := 4\<rparr>) + 1\<rparr>) = Inr data
       \<and> \<not> Done Background \<and> \<not> failing empty_store ZADD"
    using d by (simp add: empty_store_def)
  have "(data, (0 + backoff (worker_processor oor_amd64) (RetryCount (task_x\<lparr>RetryCount := 4\<rparr>)))
            div Second)
      \<in> set (retry_schedule (snd (handleFailure (worker_processor oor_amd64) Background 0
                 (task_x\<lparr>RetryCount := 4\<rparr>) empty_store)))"
    using pre retry_while_count_below_five
      [where task = "task_x\<lparr>RetryCount := 4\<rparr>" and p = "worker_processor oor_amd64"
         and ctx = Background and now = 0 and s = empty_store and n = 0 and data = data]
    by blast
  then have ne: "retry_schedule
        (snd (handleFailure (worker_processor oor_amd64) Background 0
               (task_x\<lparr>RetryCount := 4\<rparr>) empty_store)) \<noteq> []"
    by auto
  have "\<not> RetryCount (task_x\<lparr>RetryCount := 5\<rparr>) < 5"
    by simp
  then have drop: "handleFailure (worker_processor oor_amd64) Background 0
        (task_x\<lparr>RetryCount := 5\<rparr>) empty_store = (task_x\<lparr>RetryCount := 5\<rparr>, empty_store)"
    using retry_while_count_below_five
      [where task = "task_x\<lparr>RetryCount := 5\<rparr>" and p = "worker_processor oor_amd64"
         and ctx = Background and now = 0 and s = empty_store and n = 0 and data = data]
    by blast
  show ?thesis using h a4 ne drop by blast
qed

lemma funpow5: "(f ^^ 5) x = f (f (f (f (f x))))"
  by (simp add: eval_nat_numeral)

lemma submitted_eval:
  "snd (send_handler api_limiter Background 0 sample_time ''POST'' (Some request_x) empty_store)
   = empty_store\<lparr>counters := (counters empty_store)(counter_key ''u1'' \<mapsto> (1, Some 60000000000)),
        webhook_queue := [wire ''{}'' ''0'' sample_time]\<rparr>"
  by (simp add: send_handler_def api_limiter_def request_x_def sample_time_def wire_def
      store_defs codec_defs Let_def Second_def Nanosecond_def)

lemma round_eval:
  "failed_round (worker_processor oor) 0 (100 * Second) sample_time
     (empty_store\<lparr>counters := cs, webhook_queue := [wire ''{}'' ''0'' sample_time]\<rparr>)
   = empty_store\<lparr>counters := cs, webhook_queue := [wire ''{}'' ''1'' sample_time]\<rparr>"
  "failed_round (worker_processor oor) 0 (100 * Second) sample_time
     (empty_store\<lparr>counters := cs, webhook_queue := [wire ''{}'' ''1'' sample_time]\<rparr>)
   = empty_store\<lparr>counters := cs, webhook_queue := [wire ''{}'' ''2'' sample_time]\<rparr>"
  "failed_round (worker_processor oor) 0 (100 * Second) sample_time
     (empty_store\<lparr>counters := cs, webhook_queue := [wire ''{}'' ''2'' sample_time]\<rparr>)
   = empty_store\<lparr>counters := cs, webhook_queue := [wire ''{}'' ''3'' sample_time]\<rparr>"
  "failed_round (worker_processor oor) 0 (100 * Second) sample_time
     (empty_store\<lparr>counters := cs, webhook_queue := [wire ''{}'' ''3'' sample_time]\<rparr>)
   = empty_store\<lparr>counters := cs, webhook_queue := [wire ''{}'' ''4'' sample_time]\<rparr>"
  "failed_round (worker_processor oor) 0 (100 * Second) sample_time
     (empty_store\<lparr>counters := cs, webhook_queue := [wire ''{}'' ''4'' sample_time]\<rparr>)
   = empty_store\<lparr>counters := cs, webhook_queue := [wire ''{}'' ''5'' sample_time]\<rparr>"
  by (simp_all add: sample_time_def wire_def
      worker_defs store_defs codec_defs Let_def Second_def Nanosecond_def GetNextInterval_worker_small)

lemma round_eval5:
  shows "failed_round (worker_processor oor) 0 (100 * Second) sample_time
     (empty_store\<lparr>counters := cs, webhook_queue := [wire ''{}'' ''5'' sample_time]\<rparr>)
   = empty_store\<lparr>counters := cs\<rparr>"
  by (simp add: sample_time_def wire_def
      worker_defs store_defs codec_defs Let_def Second_def Nanosecond_def GetNextInterval_worker_small)

text \<open>
  C1, as stated, fails: a request is accepted, and its task fails five times in a row,
  each failed pass of the worker followed by a tick of the poller. After the fifth
  failure the task is on the broker again, with retry count 5.
\<close>

theorem fifth_failure_is_rescheduled:
  "webhook_queue
     ((failed_round (worker_processor oor_amd64) 0 (100 * Second) sample_time ^^ 5)
        (snd (send_handler api_limiter Background 0 sample_time ''POST'' (Some request_x)
               empty_store)))
   = [wire ''{}'' ''5'' sample_time]"
  unfolding submitted_eval funpow5
  by (simp add: round_eval)

section \<open>Properties of the HTTP entry point\<close>

lemma Allow_frame:
  "webhook_queue (snd (Allow l ctx now u s)) = webhook_queue s"
  "retry_schedule (snd (Allow l ctx now u s)) = retry_schedule s"
  "failing (snd (Allow l ctx now u s)) = failing s"
  by (cases l; auto simp: Incr_def Expire_def Let_def
        split: option.splits sum.splits prod.splits if_splits)+

text \<open>
  C10. When the handler answers 202 Accepted, the request was a POST with a body that
  decoded and a user, and the element the handler pushed at the head of the broker's list
  is the JSON form of a task whose payload is the request's \<open>data\<close>, whose retry count
  is 0 and whose creation time is the clock's reading. With any other answer the broker's
  list is as it was.
\<close>

theorem accepted_task_has_count_zero:
  "(send_handler limiter ctx now_ns now http_method body s = (Accepted, s') \<longrightarrow>
      (\<exists>req data. http_method = ''POST'' \<and> body = Some req \<and> UserID req \<noteq> []
         \<and> json_Marshal \<lparr>Payload = Data req, RetryCount = 0, CreatedAt = now\<rparr> = Inr data
         \<and> webhook_queue s' = data # webhook_queue s))
   \<and> (send_handler limiter ctx now_ns now http_method body s = (r, s') \<and> r \<noteq> Accepted \<longrightarrow>
        webhook_queue s' = webhook_queue s)"
proof -
  have q: "\<And>u. webhook_queue (snd (Allow limiter ctx now_ns u s)) = webhook_queue s"
    by (rule Allow_frame)
  have st: "\<And>p. stamped now \<lparr>Payload = p, RetryCount = 0, CreatedAt = zero_Time\<rparr>
      = \<lparr>Payload = p, RetryCount = 0, CreatedAt = now\<rparr>"
    by (simp add: stamped_def IsZero_def)
  show ?thesis
  proof (intro conjI impI)
    assume a: "send_handler limiter ctx now_ns now http_method body s = (Accepted, s')"
    then obtain req where req: "http_method = ''POST''" "body = Some req" "UserID req \<noteq> []"
      by (auto simp: send_handler_def split: if_splits option.splits)
    obtain allowed err s1 where al: "Allow limiter ctx now_ns (UserID req) s = ((allowed, err), s1)"
      by (metis surj_pair)
    have q1: "webhook_queue s1 = webhook_queue s"
      using q [of "UserID req"] al by simp
    from a req al have en:
      "Enqueue ctx now \<lparr>Payload = Data req, RetryCount = 0, CreatedAt = zero_Time\<rparr> s1 = (None, s')"
      by (auto simp: send_handler_def Let_def split: if_splits option.splits prod.splits)
    from Enqueue_None [OF en] st q1 req
    show "\<exists>req data. http_method = ''POST'' \<and> body = Some req \<and> UserID req \<noteq> []
         \<and> json_Marshal \<lparr>Payload = Data req, RetryCount = 0, CreatedAt = now\<rparr> = Inr data
         \<and> webhook_queue s' = data # webhook_queue s"
      by auto
  next
    assume a: "send_handler limiter ctx now_ns now http_method body s = (r, s') \<and> r \<noteq> Accepted"
    show "webhook_queue s' = webhook_queue s"
    proof (cases "http_method = ''POST'' \<and> (\<exists>req. body = Some req \<and> UserID req \<noteq> [])")
      case False
      with a show ?thesis
        by (auto simp: send_handler_def split: if_splits option.splits)
    next
      case True
      then obtain req where req: "http_method = ''POST''" "body = Some req" "UserID req \<noteq> []"
        by blast
      obtain allowed err s1 where al: "Allow limiter ctx now_ns (UserID req) s = ((allowed, err), s1)"
        by (metis surj_pair)
      have q1: "webhook_queue s1 = webhook_queue s"
        using q [of "UserID req"] al by simp
      show ?thesis
      proof (cases "err = None \<and> allowed")
        case False
        with a req al q1 show ?thesis
          by (auto simp: send_handler_def split: if_splits option.splits)
      next
        case True
        obtain e s2 where en:
          "Enqueue ctx now \<lparr>Payload = Data req, RetryCount = 0, CreatedAt = zero_Time\<rparr> s1 = (e, s2)"
          by (metis surj_pair)
        with a req al True obtain e' where "e = Some e'" "s' = s2"
          by (auto simp: send_handler_def Let_def split: if_splits option.splits)
        with en Enqueue_Some q1 show ?thesis
          by metis
      qed
    qed
  qed
qed

theorem accepted_task_has_count_zero_witness:
  "send_handler api_limiter Background 0 sample_time ''POST'' (Some request_x) empty_store
     = (Accepted, snd (send_handler api_limiter Background 0 sample_time ''POST''
                         (Some request_x) empty_store))
   \<and> webhook_queue (snd (send_handler api_limiter Background 0 sample_time ''POST''
                         (Some request_x) empty_store))
     = [wire ''{}'' ''0'' sample_time]"
proof -
  have f: "fst (send_handler api_limiter Background 0 sample_time ''POST'' (Some request_x)
                  empty_store) = Accepted"
    by (simp add: send_handler_def api_limiter_def request_x_def sample_time_def
        store_defs codec_defs Let_def Second_def Nanosecond_def)
  then have h: "send_handler api_limiter Background 0 sample_time ''POST'' (Some request_x)
      empty_store
     = (Accepted, snd (send_handler api_limiter Background 0 sample_time ''POST''
                         (Some request_x) empty_store))"
    by (metis prod.collapse)
  have m: "json_Marshal \<lparr>Payload = Data request_x, RetryCount = 0, CreatedAt = sample_time\<rparr>
      = Inr (wire ''{}'' ''0'' sample_time)"
    by (simp add: request_x_def sample_time_def wire_def codec_defs)
  from h accepted_task_has_count_zero
    [where limiter = api_limiter and ctx = Background and now_ns = 0 and now = sample_time
       and http_method = "''POST''" and body = "Some request_x" and s = empty_store
       and s' = "snd (send_handler api_limiter Background 0 sample_time ''POST''
                         (Some request_x) empty_store)" and r = Accepted]
  obtain req data where "Some request_x = Some req"
    "json_Marshal \<lparr>Payload = Data req, RetryCount = 0, CreatedAt = sample_time\<rparr> = Inr data"
    "webhook_queue (snd (send_handler api_limiter Background 0 sample_time ''POST''
                         (Some request_x) empty_store)) = data # webhook_queue empty_store"
    by blast
  with m have "webhook_queue (snd (send_handler api_limiter Background 0 sample_time ''POST''
                         (Some request_x) empty_store)) = [wire ''{}'' ''0'' sample_time]"
    by (simp add: empty_store_def)
  with h show ?thesis by simp
qed

section \<open>Properties of the retry scheduler\<close>

lemma Enqueue_frame:
  "retry_schedule (snd (Enqueue ctx now t s)) = retry_schedule s"
  "failing (snd (Enqueue ctx now t s)) = failing s"
  by (auto simp: Enqueue_def LPush_def split: sum.splits option.splits)

lemma Enqueue_queue_grows:
  "set (webhook_queue s) \<subseteq> set (webhook_queue (snd (Enqueue ctx now t s)))"
  by (auto simp: Enqueue_def LPush_def split: sum.splits option.splits)

lemma Enqueue_push_fails:
  "failing s LPUSH \<Longrightarrow> snd (Enqueue ctx now t s) = s"
  by (auto simp: Enqueue_def LPush_def command_error_def split: sum.splits option.splits)

lemma ZRem_frame:
  "webhook_queue (snd (ZRem ctx m s)) = webhook_queue s"
  "failing (snd (ZRem ctx m s)) = failing s"
  "set (retry_schedule (snd (ZRem ctx m s))) \<subseteq> set (retry_schedule s)"
  by (auto simp: ZRem_def split: option.splits)

lemma ZRem_keeps_others:
  "(m', sc) \<in> set (retry_schedule s) \<Longrightarrow> m' \<noteq> m \<Longrightarrow>
     (m', sc) \<in> set (retry_schedule (snd (ZRem ctx m s)))"
  by (auto simp: ZRem_def split: option.splits)

lemma ZRem_removes:
  "\<not> failing s ZREM \<Longrightarrow>
     snd (ZRem Background m s) =
       s\<lparr>retry_schedule := filter (\<lambda>(m', sc). m' \<noteq> m) (retry_schedule s)\<rparr>"
  by (simp add: ZRem_def command_error_def)

lemma promote_failing: "failing (promote now ms s) = failing s"
  by (induction ms arbitrary: s) (simp_all add: Let_def Enqueue_frame ZRem_frame)

lemma promote_queue_grows:
  "set (webhook_queue s) \<subseteq> set (webhook_queue (promote now ms s))"
proof (induction ms arbitrary: s)
  case Nil
  then show ?case by simp
next
  case (Cons m ms)
  let ?t = "case json_Unmarshal m of Inl e \<Rightarrow> zero_Task | Inr t \<Rightarrow> t"
  let ?s1 = "snd (Enqueue Background now ?t s)"
  let ?s2 = "snd (ZRem Background m ?s1)"
  have "set (webhook_queue s) \<subseteq> set (webhook_queue ?s2)"
    using Enqueue_queue_grows [of s Background now ?t] by (simp add: ZRem_frame)
  also have "\<dots> \<subseteq> set (webhook_queue (promote now ms ?s2))"
    by (rule Cons.IH)
  finally show ?case by (simp add: Let_def)
qed

lemma promote_schedule_shrinks:
  "set (retry_schedule (promote now ms s)) \<subseteq> set (retry_schedule s)"
proof (induction ms arbitrary: s)
  case Nil
  then show ?case by simp
next
  case (Cons m ms)
  let ?t = "case json_Unmarshal m of Inl e \<Rightarrow> zero_Task | Inr t \<Rightarrow> t"
  let ?s1 = "snd (Enqueue Background now ?t s)"
  let ?s2 = "snd (ZRem Background m ?s1)"
  have "set (retry_schedule (promote now ms ?s2)) \<subseteq> set (retry_schedule ?s2)"
    by (rule Cons.IH)
  also have "\<dots> \<subseteq> set (retry_schedule s)"
    using ZRem_frame(3) [of Background m ?s1] by (simp add: Enqueue_frame)
  finally show ?case by (simp add: Let_def)
qed

lemma promote_keeps_others:
  "(m', sc) \<in> set (retry_schedule s) \<Longrightarrow> m' \<notin> set ms \<Longrightarrow>
     (m', sc) \<in> set (retry_schedule (promote now ms s))"
proof (induction ms arbitrary: s)
  case Nil
  then show ?case by simp
next
  case (Cons m ms)
  let ?t = "case json_Unmarshal m of Inl e \<Rightarrow> zero_Task | Inr t \<Rightarrow> t"
  let ?s1 = "snd (Enqueue Background now ?t s)"
  let ?s2 = "snd (ZRem Background m ?s1)"
  have "(m', sc) \<in> set (retry_schedule ?s1)"
    using Cons.prems by (simp add: Enqueue_frame)
  then have "(m', sc) \<in> set (retry_schedule ?s2)"
    using Cons.prems by (intro ZRem_keeps_others) auto
  then have "(m', sc) \<in> set (retry_schedule (promote now ms ?s2))"
    using Cons.prems by (intro Cons.IH) auto
  then show ?case by (simp add: Let_def)
qed

lemma promote_when_push_fails:
  "failing s LPUSH \<Longrightarrow> \<not> failing s ZREM \<Longrightarrow>
     promote now ms s =
       s\<lparr>retry_schedule := filter (\<lambda>(m, sc). m \<notin> set ms) (retry_schedule s)\<rparr>"
proof (induction ms arbitrary: s)
  case Nil
  then show ?case by simp
next
  case (Cons m ms)
  let ?t = "case json_Unmarshal m of Inl e \<Rightarrow> zero_Task | Inr t \<Rightarrow> t"
  let ?s2 = "s\<lparr>retry_schedule := filter (\<lambda>(m', sc). m' \<noteq> m) (retry_schedule s)\<rparr>"
  have s1: "snd (Enqueue Background now ?t s) = s"
    using Cons.prems by (simp add: Enqueue_push_fails)
  have s2: "snd (ZRem Background m s) = ?s2"
    using Cons.prems by (simp add: ZRem_removes)
  have "promote now ms ?s2 =
      ?s2\<lparr>retry_schedule := filter (\<lambda>(m, sc). m \<notin> set ms) (retry_schedule ?s2)\<rparr>"
    using Cons.prems by (intro Cons.IH) simp_all
  moreover have "filter (\<lambda>(m, sc). m \<notin> set ms) (filter (\<lambda>(m', sc). m' \<noteq> m) (retry_schedule s))
      = filter (\<lambda>(m', sc). m' \<notin> set (m # ms)) (retry_schedule s)"
    by (induction "retry_schedule s") (auto simp: case_prod_beta)
  ultimately show ?case
    by (simp add: Let_def s1 s2 del: set_simps)
qed

lemma set_range_by_score:
  "set (range_by_score mx zs) = fst ` {(m, sc). (m, sc) \<in> set zs \<and> sc \<le> mx}"
  by (auto simp: range_by_score_def image_iff)

lemma poll_tick_promote:
  "\<not> failing s ZRANGEBYSCORE \<Longrightarrow>
     poll_tick now_ns now s = promote now (range_by_score (now_ns div Second) (retry_schedule s)) s"
  by (simp add: poll_tick_def ZRangeByScore_def command_error_def)

text \<open>
  C4. The claim is that an entry whose re-enqueue fails stays in the retry schedule and is
  promoted again on the next tick. The poller drops the result of \<open>Enqueue\<close> and calls
  \<open>ZREM\<close> in every case: when the store refuses \<open>LPUSH\<close> but serves the query and
  \<open>ZREM\<close>, a tick leaves the broker's list as it was and removes every due entry from
  the schedule, so the task is lost.
\<close>

theorem failed_requeue_loses_entry:
  assumes "failing s LPUSH" and "\<not> failing s ZRANGEBYSCORE" and "\<not> failing s ZREM"
    and "(m, sc) \<in> set (retry_schedule s)" and "sc \<le> now_ns div Second"
  shows "webhook_queue (poll_tick now_ns now s) = webhook_queue s
         \<and> m \<notin> fst ` set (retry_schedule (poll_tick now_ns now s))"
proof -
  let ?ms = "range_by_score (now_ns div Second) (retry_schedule s)"
  have m: "m \<in> set ?ms"
    using assms(4,5) by (force simp: set_range_by_score)
  have "poll_tick now_ns now s = promote now ?ms s"
    using assms(2) by (rule poll_tick_promote)
  also have "\<dots> = s\<lparr>retry_schedule := filter (\<lambda>(m, sc). m \<notin> set ?ms) (retry_schedule s)\<rparr>"
    using assms(1,3) by (rule promote_when_push_fails)
  finally show ?thesis using m by auto
qed

lemma push_refused_failing: "failing push_refused LPUSH" "\<not> failing push_refused ZRANGEBYSCORE"
    "\<not> failing push_refused ZREM"
  by (simp_all add: push_refused_def empty_store_def)

lemma push_refused_entry:
    "(wire ''x'' ''1'' sample_time, 10) \<in> set (retry_schedule push_refused)"
  by (simp add: push_refused_def empty_store_def)

lemma push_refused_due:
    "(10::int) \<le> 11000000000 div Second"
  by (simp add: Second_def Nanosecond_def)

lemma push_refused_shrinks: "set (retry_schedule (poll_tick 11000000000 sample_time push_refused))
      \<subseteq> set (retry_schedule push_refused)"
    unfolding poll_tick_promote [OF push_refused_failing(2)] by (rule promote_schedule_shrinks)

lemma push_refused_schedule: "retry_schedule push_refused = [(wire ''x'' ''1'' sample_time, 10)]"
  by (simp add: push_refused_def empty_store_def)

lemma push_refused_queue: "webhook_queue push_refused = []"
  by (simp add: push_refused_def empty_store_def)


theorem failed_requeue_loses_entry_witness:
  "failing push_refused LPUSH \<and> \<not> failing push_refused ZRANGEBYSCORE
   \<and> \<not> failing push_refused ZREM
   \<and> (wire ''x'' ''1'' sample_time, 10) \<in> set (retry_schedule push_refused)
   \<and> (10::int) \<le> 11000000000 div Second
   \<and> webhook_queue (poll_tick 11000000000 sample_time push_refused) = []
   \<and> retry_schedule (poll_tick 11000000000 sample_time push_refused) = []"
proof -
  define X where "X = poll_tick 11000000000 sample_time push_refused"
  note r = failed_requeue_loses_entry [OF push_refused_failing push_refused_entry push_refused_due,
      where now = sample_time, folded X_def]
  have q: "webhook_queue X = webhook_queue push_refused"
    using r by (rule conjunct1)
  have notin: "wire ''x'' ''1'' sample_time \<notin> fst ` set (retry_schedule X)"
    using r by (rule conjunct2)
  have sub': "set (retry_schedule X) \<subseteq> {(wire ''x'' ''1'' sample_time, 10)}"
    using push_refused_shrinks unfolding X_def push_refused_schedule by simp
  have rX: "retry_schedule X = []"
  proof (cases "retry_schedule X")
    case Nil
    then show ?thesis .
  next
    case (Cons e es)
    then have e: "e \<in> set (retry_schedule X)" by simp
    with sub' have "e = (wire ''x'' ''1'' sample_time, 10)" by auto
    then have "fst e = wire ''x'' ''1'' sample_time" by simp
    moreover from e have "fst e \<in> fst ` set (retry_schedule X)" by (rule imageI)
    ultimately show ?thesis using notin by simp
  qed
  have qX: "webhook_queue X = []"
    using q by (simp add: push_refused_queue)
  show ?thesis
    using push_refused_failing push_refused_entry push_refused_due qX rX
    unfolding X_def by (intro conjI)
qed

lemma scheduleRetry_entry:
  assumes "json_Marshal task = Inr data" "\<not> Done ctx" "\<not> failing s ZADD"
  shows "scheduleRetry ctx now task d s =
           s\<lparr>retry_schedule := (data, (now + d) div Second)
                  # filter (\<lambda>(m, sc). m \<noteq> data) (retry_schedule s)\<rparr>"
  using assms by (simp add: scheduleRetry_def ZAdd_def command_error_def Let_def)

lemma poll_tick_cases:
  "poll_tick t now s =
     (if failing s ZRANGEBYSCORE then s
      else promote now (range_by_score (t div Second) (retry_schedule s)) s)"
  by (simp add: poll_tick_def ZRangeByScore_def command_error_def)

lemma promote_moves:
  assumes "m \<in> set ms" "\<not> failing s LPUSH" "\<not> failing s ZREM"
    "json_Unmarshal m = Inr t" "json_Marshal (stamped now t) = Inr d"
  shows "d \<in> set (webhook_queue (promote now ms s))
         \<and> m \<notin> fst ` set (retry_schedule (promote now ms s))"
  using assms
proof (induction ms arbitrary: s)
  case Nil
  then show ?case by simp
next
  case (Cons a ms)
  let ?ta = "case json_Unmarshal a of Inl e \<Rightarrow> zero_Task | Inr t \<Rightarrow> t"
  let ?s1 = "snd (Enqueue Background now ?ta s)"
  let ?s2 = "snd (ZRem Background a ?s1)"
  have f1: "\<not> failing ?s1 ZREM"
    using Cons.prems by (simp add: Enqueue_frame)
  have f2: "\<not> failing ?s2 LPUSH" "\<not> failing ?s2 ZREM"
    using Cons.prems by (simp_all add: ZRem_frame Enqueue_frame)
  have unf: "promote now (a # ms) s = promote now ms ?s2"
    by (simp add: Let_def)
  show ?case
  proof (cases "m = a")
    case True
    have ta: "?ta = t"
      using True Cons.prems(4) by simp
    have "Enqueue Background now t s = (None, s\<lparr>webhook_queue := d # webhook_queue s\<rparr>)"
      using Cons.prems by (simp add: Enqueue_def LPush_def command_error_def)
    then have "d \<in> set (webhook_queue ?s1)"
      unfolding ta by simp
    then have "d \<in> set (webhook_queue ?s2)"
      by (simp add: ZRem_frame)
    then have A: "d \<in> set (webhook_queue (promote now ms ?s2))"
      using promote_queue_grows [of ?s2 now ms] by (rule rev_subsetD)
    have "retry_schedule ?s2 = filter (\<lambda>(m', sc). m' \<noteq> a) (retry_schedule ?s1)"
      by (simp add: ZRem_removes [OF f1])
    then have "m \<notin> fst ` set (retry_schedule ?s2)"
      using True by auto
    moreover have "fst ` set (retry_schedule (promote now ms ?s2)) \<subseteq> fst ` set (retry_schedule ?s2)"
      by (rule image_mono) (rule promote_schedule_shrinks)
    ultimately have B: "m \<notin> fst ` set (retry_schedule (promote now ms ?s2))"
      by (rule contra_subsetD [rotated])
    show ?thesis unfolding unf using A B by (rule conjI)
  next
    case False
    then have "m \<in> set ms" using Cons.prems(1) by simp
    from Cons.IH [OF this f2 Cons.prems(4,5)] show ?thesis unfolding unf .
  qed
qed

lemma whole_seconds:
  "t + Second \<le> now + d \<Longrightarrow> t div Second < (now + d) div Second"
  "now + d \<le> t \<Longrightarrow> (now + d) div Second \<le> t div Second"
proof -
  have pos: "(0::int) < Second" by (simp add: Second_def Nanosecond_def)
  show "now + d \<le> t \<Longrightarrow> (now + d) div Second \<le> t div Second"
    using pos by (rule zdiv_mono1 [rotated])
  assume "t + Second \<le> now + d"
  then have "(t + Second) div Second \<le> (now + d) div Second"
    using pos by (rule zdiv_mono1)
  moreover have "(t + Second) div Second = t div Second + 1"
    using pos by simp
  ultimately show "t div Second < (now + d) div Second" by simp
qed

lemma rev_requeued: "rev (requeued now m) = requeued now m"
  by (simp add: requeued_def split: sum.splits)

lemma Enqueue_effect:
  "snd (Enqueue Background now (case json_Unmarshal m of Inl e \<Rightarrow> zero_Task | Inr t \<Rightarrow> t) s)
     = s\<lparr>webhook_queue := (if failing s LPUSH then [] else requeued now m) @ webhook_queue s\<rparr>"
  by (simp add: Enqueue_def LPush_def command_error_def requeued_def split: sum.splits)

lemma ZRem_effect:
  "snd (ZRem Background m s)
     = s\<lparr>retry_schedule := (if failing s ZREM then retry_schedule s
                             else filter (\<lambda>(m', sc). m' \<noteq> m) (retry_schedule s))\<rparr>"
  by (simp add: ZRem_def command_error_def)

lemma filter_members:
  "filter (\<lambda>(m', sc). m' \<notin> set ms) (filter (\<lambda>(m', sc). m' \<noteq> m) zs)
     = filter (\<lambda>(m', sc). m' \<notin> set (m # ms)) zs"
  by (induction zs) auto

lemma promote_effect:
  "promote now ms s =
     s\<lparr>webhook_queue := (if failing s LPUSH then []
                          else rev (concat (map (requeued now) ms))) @ webhook_queue s,
       retry_schedule := (if failing s ZREM then retry_schedule s
                          else filter (\<lambda>(m, sc). m \<notin> set ms) (retry_schedule s))\<rparr>"
proof (induction ms arbitrary: s)
  case Nil
  then show ?case by simp
next
  case (Cons m ms)
  define s2 where "s2 = s\<lparr>webhook_queue := (if failing s LPUSH then [] else requeued now m)
                                              @ webhook_queue s,
                           retry_schedule := (if failing s ZREM then retry_schedule s
                             else filter (\<lambda>(m', sc). m' \<noteq> m) (retry_schedule s))\<rparr>"
  have unf: "promote now (m # ms) s = promote now ms s2"
    by (simp add: Let_def Enqueue_effect ZRem_effect s2_def)
  have f: "failing s2 = failing s"
    and q: "webhook_queue s2 = (if failing s LPUSH then [] else requeued now m) @ webhook_queue s"
    and z: "retry_schedule s2 = (if failing s ZREM then retry_schedule s
                             else filter (\<lambda>(m', sc). m' \<noteq> m) (retry_schedule s))"
    by (simp_all add: s2_def)
  show ?case
    unfolding unf Cons.IH [of s2] f q z
    by (simp add: s2_def rev_requeued filter_members del: set_simps filter_filter)
qed

lemma poll_tick_effect:
  "poll_tick t now s =
     (if failing s ZRANGEBYSCORE then s
      else s\<lparr>webhook_queue :=
               (if failing s LPUSH then []
                else rev (concat (map (requeued now)
                                    (range_by_score (t div Second) (retry_schedule s)))))
               @ webhook_queue s,
             retry_schedule :=
               (if failing s ZREM then retry_schedule s
                else filter (\<lambda>(m, sc). m \<notin> set (range_by_score (t div Second) (retry_schedule s)))
                       (retry_schedule s))\<rparr>)"
  by (simp add: poll_tick_cases promote_effect)

lemma due_iff:
  assumes "(data, ex) \<in> set zs" "\<forall>sc. (data, sc) \<in> set zs \<longrightarrow> sc = ex"
  shows "data \<in> set (range_by_score mx zs) \<longleftrightarrow> ex \<le> mx"
proof
  assume "data \<in> set (range_by_score mx zs)"
  then obtain sc where "(data, sc) \<in> set zs" "sc \<le> mx"
    by (auto simp: set_range_by_score)
  with assms(2) show "ex \<le> mx" by auto
next
  assume "ex \<le> mx"
  with assms(1) have "(data, ex) \<in> {(m, sc). (m, sc) \<in> set zs \<and> sc \<le> mx}"
    by simp
  then have "fst (data, ex) \<in> fst ` {(m, sc). (m, sc) \<in> set zs \<and> sc \<le> mx}"
    by (rule imageI)
  then show "data \<in> set (range_by_score mx zs)"
    by (simp add: set_range_by_score)
qed

lemma due_unchanged:
  "\<not> ex \<le> mx \<Longrightarrow> range_by_score mx ((data, ex) # zs) = range_by_score mx zs"
  by (simp add: range_by_score_def)

lemma due_members: "set (range_by_score mx zs) \<subseteq> fst ` set zs"
  unfolding set_range_by_score by (rule image_mono) auto

lemma poll_tick_failing: "failing (poll_tick t now s) = failing s"
  by (simp add: poll_tick_effect)

lemma poll_tick_schedule_shrinks:
  "set (retry_schedule (poll_tick t now s)) \<subseteq> set (retry_schedule s)"
  by (auto simp: poll_tick_effect)

lemma early_tick_passes:
  assumes "data \<notin> fst ` set (retry_schedule r0)" "t div Second < ex"
  shows "poll_tick t tn (r0\<lparr>retry_schedule := (data, ex) # retry_schedule r0\<rparr>)
           = (poll_tick t tn r0)\<lparr>retry_schedule := (data, ex) # retry_schedule (poll_tick t tn r0)\<rparr>"
    and "data \<notin> fst ` set (retry_schedule (poll_tick t tn r0))"
proof -
  have d: "range_by_score (t div Second) ((data, ex) # retry_schedule r0)
      = range_by_score (t div Second) (retry_schedule r0)"
    using assms(2) by (intro due_unchanged) simp
  have n: "data \<notin> set (range_by_score (t div Second) (retry_schedule r0))"
    using assms(1) due_members [of "t div Second" "retry_schedule r0"] by (auto simp del: set_range_by_score)
  show "poll_tick t tn (r0\<lparr>retry_schedule := (data, ex) # retry_schedule r0\<rparr>)
           = (poll_tick t tn r0)\<lparr>retry_schedule := (data, ex) # retry_schedule (poll_tick t tn r0)\<rparr>"
    using n by (simp add: poll_tick_effect d)
  show "data \<notin> fst ` set (retry_schedule (poll_tick t tn r0))"
    using assms(1) image_mono [OF poll_tick_schedule_shrinks [of t tn r0], of fst] by auto
qed

lemma early_run_passes:
  assumes "data \<notin> fst ` set (retry_schedule r0)"
    "\<forall>(t, n)\<in>set early. t div Second < ex"
  shows "startRetryPoller early (r0\<lparr>retry_schedule := (data, ex) # retry_schedule r0\<rparr>)
           = (startRetryPoller early r0)
               \<lparr>retry_schedule := (data, ex) # retry_schedule (startRetryPoller early r0)\<rparr>
         \<and> data \<notin> fst ` set (retry_schedule (startRetryPoller early r0))"
  using assms
proof (induction early arbitrary: r0)
  case Nil
  then show ?case by simp
next
  case (Cons a early)
  obtain t tn where a: "a = (t, tn)" by (cases a)
  have e: "t div Second < ex" and rest: "\<forall>(t, n)\<in>set early. t div Second < ex"
    using Cons.prems(2) by (simp_all add: a)
  note p = early_tick_passes [OF Cons.prems(1) e, of tn]
  show ?case
    unfolding a using Cons.IH [OF p(2) rest] by (simp add: p(1))
qed

lemma startRetryPoller_append:
  "startRetryPoller (xs @ ys) s = startRetryPoller ys (startRetryPoller xs s)"
  by (induction xs arbitrary: s) auto

lemma startRetryPoller_failing: "failing (startRetryPoller ticks s) = failing s"
  by (induction ticks arbitrary: s) (auto simp: poll_tick_failing)

lemma div_less_imp_less:
  "t div Second < (b::int) div Second \<Longrightarrow> t < b"
proof (rule ccontr)
  assume a: "t div Second < b div Second" and "\<not> t < b"
  then have "b \<le> t" by simp
  then have "b div Second \<le> t div Second"
    by (rule zdiv_mono1) (simp add: Second_def Nanosecond_def)
  with a show False by simp
qed

lemma first_due_tick:
  assumes "spaced p (map fst ticks)" "p \<le> b"
    "\<exists>(t, n)\<in>set ticks. b div Second \<le> t div Second"
  shows "\<exists>early t tn rest. ticks = early @ (t, tn) # rest
           \<and> (\<forall>(t', n)\<in>set early. t' div Second < b div Second)
           \<and> b div Second \<le> t div Second \<and> t \<le> b + Second"
  using assms
proof (induction ticks arbitrary: p)
  case Nil
  then show ?case by simp
next
  case (Cons a ticks)
  obtain t tn where a: "a = (t, tn)" by (cases a)
  have t: "t \<le> p + Second" and sp: "spaced t (map fst ticks)"
    using Cons.prems(1) by (simp_all add: a)
  show ?case
  proof (cases "b div Second \<le> t div Second")
    case True
    have "t \<le> b + Second" using t Cons.prems(2) by simp
    with True have "a # ticks = [] @ (t, tn) # ticks
        \<and> (\<forall>(t', n)\<in>set []. t' div Second < b div Second)
        \<and> b div Second \<le> t div Second \<and> t \<le> b + Second"
      by (simp add: a)
    then show ?thesis
      by (intro exI)
  next
    case False
    then have early: "t div Second < b div Second" by simp
    then have tb: "t \<le> b" using div_less_imp_less [of t b] by simp
    have more: "\<exists>(t, n)\<in>set ticks. b div Second \<le> t div Second"
      using Cons.prems(3) False by (simp add: a)
    from Cons.IH [OF sp tb more] obtain early' t' tn' rest where
      s: "ticks = early' @ (t', tn') # rest"
      and e: "\<forall>(t'', n)\<in>set early'. t'' div Second < b div Second"
      and d: "b div Second \<le> t' div Second" "t' \<le> b + Second"
      by (elim exE conjE)
    have "a # ticks = (a # early') @ (t', tn') # rest
        \<and> (\<forall>(t'', n)\<in>set (a # early'). t'' div Second < b div Second)
        \<and> b div Second \<le> t' div Second \<and> t' \<le> b + Second"
      using s e d early by (simp add: a)
    then show ?thesis
      by (intro exI)
  qed
qed

text \<open>
  C7, as amended. \<open>scheduleRetry\<close> stores the entry under the score
  \<open>(now + d) div Second\<close>: the instant \<open>now + d\<close> cut down to whole seconds. A tick of
  the poller at the instant \<open>t\<close> pushes onto the broker exactly the tasks of the entries
  whose score is at most \<open>t div Second\<close>, and removes exactly those entries; the entry is
  among them exactly when its score is at most \<open>t div Second\<close>, which is not the case for
  a tick that comes a full second or more before \<open>now + d\<close> and is the case for every tick
  at or after \<open>now + d\<close>. Over ticks in earlier seconds the poller runs as it would
  without the entry, which stays in the schedule. At the first tick that is not in an
  earlier second, when the store serves the commands, the task is pushed onto the broker
  and the entry removed. When the delay is not negative and the ticks follow each other,
  and the first follows the scheduling, by at most a second, such a tick comes no later
  than one second after \<open>now + d\<close>, provided the poller runs until \<open>now + d\<close>.
\<close>

theorem retry_due_by_whole_seconds:
  assumes "json_Marshal task = Inr data" and "\<not> Done ctx" and "\<not> failing s ZADD"
  shows "scheduleRetry ctx now task d s
           = s\<lparr>retry_schedule := (data, (now + d) div Second)
                  # filter (\<lambda>(m, sc). m \<noteq> data) (retry_schedule s)\<rparr>
    \<and> poll_tick t tn s1 =
         (if failing s1 ZRANGEBYSCORE then s1
          else s1\<lparr>webhook_queue :=
                    (if failing s1 LPUSH then []
                     else rev (concat (map (requeued tn)
                                 (range_by_score (t div Second) (retry_schedule s1)))))
                    @ webhook_queue s1,
                  retry_schedule :=
                    (if failing s1 ZREM then retry_schedule s1
                     else filter (\<lambda>(m, sc). m \<notin> set (range_by_score (t div Second)
                                                        (retry_schedule s1)))
                            (retry_schedule s1))\<rparr>)
    \<and> (data \<in> set (range_by_score (t div Second)
                        (retry_schedule (scheduleRetry ctx now task d s)))
         \<longleftrightarrow> (now + d) div Second \<le> t div Second)
    \<and> (t + Second \<le> now + d \<longrightarrow> t div Second < (now + d) div Second)
    \<and> (now + d \<le> t \<longrightarrow> (now + d) div Second \<le> t div Second)
    \<and> ((\<forall>(t', n)\<in>set early. t' div Second < (now + d) div Second) \<longrightarrow>
          (let r = startRetryPoller early
                     (s\<lparr>retry_schedule := filter (\<lambda>(m, sc). m \<noteq> data) (retry_schedule s)\<rparr>)
           in startRetryPoller early (scheduleRetry ctx now task d s)
                = r\<lparr>retry_schedule := (data, (now + d) div Second) # retry_schedule r\<rparr>
              \<and> data \<notin> fst ` set (retry_schedule r)))
    \<and> ((\<forall>(t', n)\<in>set early. t' div Second < (now + d) div Second)
        \<and> (now + d) div Second \<le> t div Second
        \<and> \<not> failing s ZRANGEBYSCORE \<and> \<not> failing s LPUSH \<and> \<not> failing s ZREM
        \<and> json_Unmarshal data = Inr task' \<and> json_Marshal (stamped tn task') = Inr data'
        \<longrightarrow>
          data' \<in> set (webhook_queue (startRetryPoller (early @ [(t, tn)])
                                         (scheduleRetry ctx now task d s)))
          \<and> data \<notin> fst ` set (retry_schedule (startRetryPoller (early @ [(t, tn)])
                                                  (scheduleRetry ctx now task d s))))
    \<and> (0 \<le> d \<and> spaced now (map fst ticks) \<and> (\<exists>(t', n)\<in>set ticks. now + d \<le> t') \<longrightarrow>
          (\<exists>early t tn rest. ticks = early @ (t, tn) # rest
             \<and> (\<forall>(t', n)\<in>set early. t' div Second < (now + d) div Second)
             \<and> (now + d) div Second \<le> t div Second \<and> t \<le> now + d + Second))"
proof -
  define ex where "ex = (now + d) div Second"
  define s' where "s' = scheduleRetry ctx now task d s"
  define s0 where "s0 = s\<lparr>retry_schedule := filter (\<lambda>(m, sc). m \<noteq> data) (retry_schedule s)\<rparr>"
  have c1: "s' = s\<lparr>retry_schedule := (data, ex) # filter (\<lambda>(m, sc). m \<noteq> data) (retry_schedule s)\<rparr>"
    unfolding s'_def ex_def using assms by (rule scheduleRetry_entry)
  have s'0: "s' = s0\<lparr>retry_schedule := (data, ex) # retry_schedule s0\<rparr>"
    by (simp add: c1 s0_def)
  have n0: "data \<notin> fst ` set (retry_schedule s0)"
    by (auto simp: s0_def)
  have f0: "failing s0 = failing s"
    by (simp add: s0_def)
  have c2: "poll_tick t tn s1 =
         (if failing s1 ZRANGEBYSCORE then s1
          else s1\<lparr>webhook_queue :=
                    (if failing s1 LPUSH then []
                     else rev (concat (map (requeued tn)
                                 (range_by_score (t div Second) (retry_schedule s1)))))
                    @ webhook_queue s1,
                  retry_schedule :=
                    (if failing s1 ZREM then retry_schedule s1
                     else filter (\<lambda>(m, sc). m \<notin> set (range_by_score (t div Second)
                                                        (retry_schedule s1)))
                            (retry_schedule s1))\<rparr>)"
    by (rule poll_tick_effect)
  have in': "(data, ex) \<in> set (retry_schedule s')"
    and un': "\<forall>sc. (data, sc) \<in> set (retry_schedule s') \<longrightarrow> sc = ex"
    by (auto simp: c1)
  have c3: "data \<in> set (range_by_score (t div Second) (retry_schedule s')) \<longleftrightarrow> ex \<le> t div Second"
    using in' un' by (rule due_iff)
  have c4: "t + Second \<le> now + d \<longrightarrow> t div Second < ex"
    and c5: "now + d \<le> t \<longrightarrow> ex \<le> t div Second"
    unfolding ex_def by (auto intro: whole_seconds)
  have run: "(\<forall>(t', n)\<in>set early. t' div Second < ex) \<Longrightarrow>
      startRetryPoller early s'
        = (startRetryPoller early s0)
            \<lparr>retry_schedule := (data, ex) # retry_schedule (startRetryPoller early s0)\<rparr>
      \<and> data \<notin> fst ` set (retry_schedule (startRetryPoller early s0))"
    unfolding s'0 using n0 by (rule early_run_passes)
  have c6: "(\<forall>(t', n)\<in>set early. t' div Second < ex) \<longrightarrow>
          (let r = startRetryPoller early s0
           in startRetryPoller early s' = r\<lparr>retry_schedule := (data, ex) # retry_schedule r\<rparr>
              \<and> data \<notin> fst ` set (retry_schedule r))"
    using run by (simp add: Let_def)
  have c7: "(\<forall>(t', n)\<in>set early. t' div Second < ex) \<and> ex \<le> t div Second
        \<and> \<not> failing s ZRANGEBYSCORE \<and> \<not> failing s LPUSH \<and> \<not> failing s ZREM
        \<and> json_Unmarshal data = Inr task' \<and> json_Marshal (stamped tn task') = Inr data'
        \<longrightarrow>
          data' \<in> set (webhook_queue (startRetryPoller (early @ [(t, tn)]) s'))
          \<and> data \<notin> fst ` set (retry_schedule (startRetryPoller (early @ [(t, tn)]) s'))"
  proof
    assume a: "(\<forall>(t', n)\<in>set early. t' div Second < ex) \<and> ex \<le> t div Second
        \<and> \<not> failing s ZRANGEBYSCORE \<and> \<not> failing s LPUSH \<and> \<not> failing s ZREM
        \<and> json_Unmarshal data = Inr task' \<and> json_Marshal (stamped tn task') = Inr data'"
    define r where "r = startRetryPoller early s0"
    define r' where "r' = startRetryPoller early s'"
    have e: "\<forall>(t', n)\<in>set early. t' div Second < ex"
      using a by (rule conjunct1)
    have r': "r' = r\<lparr>retry_schedule := (data, ex) # retry_schedule r\<rparr>"
      and nr: "data \<notin> fst ` set (retry_schedule r)"
      unfolding r'_def r_def using run [OF e] by simp_all
    have fr: "failing r' = failing s"
      unfolding r'_def by (simp add: startRetryPoller_failing c1)
    have inr: "(data, ex) \<in> set (retry_schedule r')"
      by (simp add: r')
    have unr: "\<forall>sc. (data, sc) \<in> set (retry_schedule r') \<longrightarrow> sc = ex"
    proof (intro allI impI)
      fix sc
      assume "(data, sc) \<in> set (retry_schedule r')"
      then have "sc = ex \<or> (data, sc) \<in> set (retry_schedule r)"
        by (auto simp: r')
      moreover have "(data, sc) \<notin> set (retry_schedule r)"
      proof
        assume "(data, sc) \<in> set (retry_schedule r)"
        then have "fst (data, sc) \<in> fst ` set (retry_schedule r)"
          by (rule imageI)
        with nr show False by simp
      qed
      ultimately show "sc = ex" by simp
    qed
    let ?ms = "range_by_score (t div Second) (retry_schedule r')"
    have m: "data \<in> set ?ms"
      using due_iff [OF inr unr, of "t div Second"] a by simp
    have pt: "poll_tick t tn r' = promote tn ?ms r'"
      using a by (simp add: poll_tick_cases fr)
    have nf: "\<not> failing r' LPUSH" "\<not> failing r' ZREM"
      using a by (simp_all add: fr)
    have um: "json_Unmarshal data = Inr task'" "json_Marshal (stamped tn task') = Inr data'"
      using a by simp_all
    have "startRetryPoller (early @ [(t, tn)]) s' = poll_tick t tn r'"
      by (simp add: startRetryPoller_append r'_def)
    with promote_moves [OF m nf um]
    show "data' \<in> set (webhook_queue (startRetryPoller (early @ [(t, tn)]) s'))
          \<and> data \<notin> fst ` set (retry_schedule (startRetryPoller (early @ [(t, tn)]) s'))"
      unfolding pt by simp
  qed
  have c8: "0 \<le> d \<and> spaced now (map fst ticks) \<and> (\<exists>(t', n)\<in>set ticks. now + d \<le> t') \<longrightarrow>
          (\<exists>early t tn rest. ticks = early @ (t, tn) # rest
             \<and> (\<forall>(t', n)\<in>set early. t' div Second < ex)
             \<and> ex \<le> t div Second \<and> t \<le> now + d + Second)"
  proof
    assume a: "0 \<le> d \<and> spaced now (map fst ticks) \<and> (\<exists>(t', n)\<in>set ticks. now + d \<le> t')"
    then obtain x where x: "x \<in> set ticks" "now + d \<le> fst x"
      by (auto simp: case_prod_beta)
    from x(2) have "(now + d) div Second \<le> fst x div Second"
      by (rule whole_seconds(2))
    with x(1) have due: "\<exists>(t, n)\<in>set ticks. (now + d) div Second \<le> t div Second"
      by (auto simp: case_prod_beta)
    have sp: "spaced now (map fst ticks)" and le: "now \<le> now + d"
      using a by simp_all
    show "\<exists>early t tn rest. ticks = early @ (t, tn) # rest
             \<and> (\<forall>(t', n)\<in>set early. t' div Second < ex)
             \<and> ex \<le> t div Second \<and> t \<le> now + d + Second"
      unfolding ex_def using sp le due by (rule first_due_tick)
  qed
  show ?thesis
    using c1 c2 c3 c4 c5 c6 c7 c8 unfolding ex_def s'_def s0_def by (intro conjI)
qed

lemma task_x1_wire:
  "json_Marshal (task_x\<lparr>RetryCount := 1\<rparr>) = Inr (wire ''x'' ''1'' sample_time)"
  "json_Unmarshal (wire ''x'' ''1'' sample_time) = Inr (task_x\<lparr>RetryCount := 1\<rparr>)"
  "stamped sample_time (task_x\<lparr>RetryCount := 1\<rparr>) = task_x\<lparr>RetryCount := 1\<rparr>"
  by (simp_all add: task_x_def sample_time_def wire_def stamped_def codec_defs)

lemma early_schedule:
  "scheduleRetry Background 10900000000 (task_x\<lparr>RetryCount := 1\<rparr>) (1 * Second) empty_store
   = empty_store\<lparr>retry_schedule := [(wire ''x'' ''1'' sample_time, 11)]\<rparr>"
  by (simp add: scheduleRetry_def task_x1_wire ZAdd_def command_error_def empty_store_def
      Second_def Nanosecond_def)

text \<open>
  C7, as stated, fails: a retry scheduled at 10.9 s with a delay of one second gets the
  score 11, and a tick of the poller at 11.0 s, which is 0.9 s before the delay has
  elapsed, puts the task back on the broker.
\<close>

theorem entry_promoted_before_delay_elapsed:
  "(11000000000::int) < 10900000000 + 1 * Second
   \<and> webhook_queue
        (poll_tick 11000000000 sample_time
           (scheduleRetry Background 10900000000 (task_x\<lparr>RetryCount := 1\<rparr>) (1 * Second)
              empty_store))
       = [wire ''x'' ''1'' sample_time]"
  unfolding early_schedule
  by (simp add: poll_tick_def ZRangeByScore_def range_by_score_def command_error_def
      task_x1_wire Enqueue_def LPush_def ZRem_def empty_store_def Let_def
      Second_def Nanosecond_def)

theorem retry_due_by_whole_seconds_witness:
  "json_Marshal (task_x\<lparr>RetryCount := 1\<rparr>) = Inr (wire ''x'' ''1'' sample_time)
   \<and> \<not> Done Background \<and> \<not> failing empty_store ZADD
   \<and> (10900000000 + 1 * Second) div Second = (11::int)
   \<and> (10950000000::int) div Second = 10 \<and> (11900000000::int) div Second = 11
   \<and> wire ''x'' ''1'' sample_time
        \<in> set (webhook_queue (startRetryPoller
                [(10950000000, sample_time), (11900000000, sample_time)]
              (scheduleRetry Background 10900000000 (task_x\<lparr>RetryCount := 1\<rparr>) (1 * Second)
                 empty_store)))
   \<and> spaced 10900000000 (map fst [(10950000000, sample_time), (11900000000, sample_time)])
   \<and> (\<exists>early t tn rest.
          [(10950000000, sample_time), (11900000000, sample_time)] = early @ (t, tn) # rest
          \<and> (\<forall>(t', n)\<in>set early. t' div Second < (10900000000 + 1 * Second) div Second)
          \<and> (10900000000 + 1 * Second) div Second \<le> t div Second
          \<and> t \<le> 10900000000 + 1 * Second + Second)"
proof -
  have h1: "json_Marshal (task_x\<lparr>RetryCount := 1\<rparr>) = Inr (wire ''x'' ''1'' sample_time)"
    by (rule task_x1_wire)
  have h2: "\<not> Done Background" and h3: "\<not> failing empty_store ZADD"
    by (simp_all add: empty_store_def)
  have ex: "(10900000000 + 1 * Second) div Second = (11::int)"
    and e1: "(10950000000::int) div Second = 10" and e2: "(11900000000::int) div Second = 11"
    by (simp_all add: Second_def Nanosecond_def)
  have due: "(\<forall>(t', n)\<in>set [(10950000000, sample_time)].
                t' div Second < (10900000000 + 1 * Second) div Second)
        \<and> (10900000000 + 1 * Second) div Second \<le> (11900000000::int) div Second
        \<and> \<not> failing empty_store ZRANGEBYSCORE \<and> \<not> failing empty_store LPUSH
        \<and> \<not> failing empty_store ZREM
        \<and> json_Unmarshal (wire ''x'' ''1'' sample_time) = Inr (task_x\<lparr>RetryCount := 1\<rparr>)
        \<and> json_Marshal (stamped sample_time (task_x\<lparr>RetryCount := 1\<rparr>))
            = Inr (wire ''x'' ''1'' sample_time)"
    by (simp add: task_x1_wire empty_store_def Second_def Nanosecond_def)
  note r = retry_due_by_whole_seconds [OF h1 h2 h3, where now = 10900000000 and d = "1 * Second"
      and t = 11900000000 and tn = sample_time and task' = "task_x\<lparr>RetryCount := 1\<rparr>"
      and data' = "wire ''x'' ''1'' sample_time"
      and early = "[(10950000000, sample_time)]"]
  have b: "wire ''x'' ''1'' sample_time
        \<in> set (webhook_queue (startRetryPoller
                ([(10950000000, sample_time)] @ [(11900000000, sample_time)])
              (scheduleRetry Background 10900000000 (task_x\<lparr>RetryCount := 1\<rparr>) (1 * Second)
                 empty_store)))"
    using r [THEN conjunct2, THEN conjunct2, THEN conjunct2, THEN conjunct2, THEN conjunct2,
        THEN conjunct2, THEN conjunct1, THEN mp, OF due]
    by (rule conjunct1)
  have b': "wire ''x'' ''1'' sample_time
        \<in> set (webhook_queue (startRetryPoller
                [(10950000000, sample_time), (11900000000, sample_time)]
              (scheduleRetry Background 10900000000 (task_x\<lparr>RetryCount := 1\<rparr>) (1 * Second)
                 empty_store)))"
    using b by (simp only: append_Cons append_Nil)
  have sp: "spaced 10900000000 (map fst [(10950000000, sample_time), (11900000000, sample_time)])"
    by (simp add: Second_def Nanosecond_def)
  have run: "(0::int) \<le> 1 * Second
      \<and> spaced 10900000000 (map fst [(10950000000, sample_time), (11900000000, sample_time)])
      \<and> (\<exists>(t', n)\<in>set [(10950000000, sample_time), (11900000000, sample_time)].
            10900000000 + 1 * Second \<le> t')"
    by (simp add: Second_def Nanosecond_def)
  have c: "\<exists>early t tn rest.
          [(10950000000, sample_time), (11900000000, sample_time)] = early @ (t, tn) # rest
          \<and> (\<forall>(t', n)\<in>set early. t' div Second < (10900000000 + 1 * Second) div Second)
          \<and> (10900000000 + 1 * Second) div Second \<le> t div Second
          \<and> t \<le> 10900000000 + 1 * Second + Second"
    using retry_due_by_whole_seconds [OF h1 h2 h3, where now = 10900000000 and d = "1 * Second"
        and ticks = "[(10950000000, sample_time), (11900000000, sample_time)]",
        THEN conjunct2, THEN conjunct2, THEN conjunct2, THEN conjunct2, THEN conjunct2,
        THEN conjunct2, THEN conjunct2, THEN mp, OF run] .
  show ?thesis
    using h1 h2 h3 ex e1 e2 b' sp c by (intro conjI)
qed

section \<open>Properties of admission control\<close>

declare Allow.simps [simp del]

lemma formatSec_pos: "0 < win \<Longrightarrow> 0 < formatSec win"
  by (auto simp: formatSec_def Second_def Nanosecond_def pos_imp_zdiv_pos_iff)

lemma Allow_result:
  assumes "\<not> Done ctx" "\<not> failing s INCR"
  shows "fst (Allow (FixedWindowLimiter lmt win) ctx now u s)
           = (current_count now u s + 1 \<le> lmt, None)"
  using assms
  by (auto simp: Allow.simps current_count_def Incr_def command_error_def Let_def
      split: option.splits prod.splits)

lemma Allow_failing: "failing (snd (Allow l ctx now u s)) = failing s"
  by (rule Allow_frame)

lemma Allow_later:
  assumes "\<not> Done ctx" "\<not> failing s INCR"
    "live_counter now (counter_key u) s = Some (v, ex)" "v \<noteq> 0"
  shows "snd (Allow (FixedWindowLimiter lmt win) ctx now u s)
           = s\<lparr>counters := (counters s)(counter_key u \<mapsto> (v + 1, ex))\<rparr>"
  using assms
  by (simp add: Allow.simps Incr_def command_error_def Let_def)

lemma Allow_first:
  assumes "\<not> Done ctx" "\<not> failing s INCR"
    "current_count now u s = 0" "0 < win"
  shows "counters (snd (Allow (FixedWindowLimiter lmt win) ctx now u s)) (counter_key u)
           = Some (1, if failing s EXPIRE
                      then (case live_counter now (counter_key u) s of
                              None \<Rightarrow> None | Some (v, ex) \<Rightarrow> ex)
                      else Some (now + formatSec win * Second))"
  using assms formatSec_pos [of win]
  by (auto simp: Allow.simps current_count_def Incr_def Expire_def command_error_def
      live_counter_def Let_def split: option.splits prod.splits)

lemma live_counter_after_update:
  "live_counter now key (s\<lparr>counters := (counters s)(key \<mapsto> (v, ex))\<rparr>)
     = (case ex of None \<Rightarrow> Some (v, None)
        | Some e \<Rightarrow> if e \<le> now then None else Some (v, Some e))"
  by (simp add: live_counter_def split: option.splits)

lemma counter_key_inj: "counter_key u = counter_key v \<longleftrightarrow> u = v"
  by (simp add: counter_key_def)

lemma Allow_other:
  "v \<noteq> u \<Longrightarrow> counters (snd (Allow l ctx t v s)) (counter_key u) = counters s (counter_key u)"
  by (cases l)
     (auto simp: Allow.simps Incr_def Expire_def Let_def counter_key_inj
       split: option.splits sum.splits prod.splits if_splits)

lemma answers_to_Cons:
  "answers_to u ((t, v) # rs) (r # results)
     = (if v = u then r # answers_to u rs results else answers_to u rs results)"
  by (simp add: answers_to_def)

lemma Allow_requests_running:
  assumes "\<not> Done ctx" "\<not> failing s INCR"
    "counters s (counter_key u) = Some (k, ex)" "1 \<le> k"
    "\<forall>(t, v)\<in>set rs. v = u \<longrightarrow> (\<forall>e. ex = Some e \<longrightarrow> t < e)"
  shows "answers_to u rs (Allow_requests (FixedWindowLimiter lmt win) ctx rs s)
           = map (\<lambda>i. (k + 1 + int i \<le> lmt, None)) [0..<length (filter (\<lambda>(t, v). v = u) rs)]"
  using assms
proof (induction rs arbitrary: s k)
  case Nil
  then show ?case by (simp add: answers_to_def)
next
  case (Cons a rs)
  obtain t v where a: "a = (t, v)" by (cases a)
  let ?l = "FixedWindowLimiter lmt win"
  have unf: "Allow_requests ?l ctx ((t, v) # rs) s
      = fst (Allow ?l ctx t v s) # Allow_requests ?l ctx rs (snd (Allow ?l ctx t v s))"
    by (simp add: case_prod_beta)
  have f': "\<not> failing (snd (Allow ?l ctx t v s)) INCR"
    using Cons.prems(2) by (simp add: Allow_failing)
  have rest: "\<forall>(t, v)\<in>set rs. v = u \<longrightarrow> (\<forall>e. ex = Some e \<longrightarrow> t < e)"
    using Cons.prems(5) by simp
  show ?case
  proof (cases "v = u")
    case False
    have c': "counters (snd (Allow ?l ctx t v s)) (counter_key u) = Some (k, ex)"
      using Allow_other [OF False] Cons.prems(3) by simp
    have "answers_to u rs (Allow_requests ?l ctx rs (snd (Allow ?l ctx t v s)))
        = map (\<lambda>i. (k + 1 + int i \<le> lmt, None)) [0..<length (filter (\<lambda>(t, v). v = u) rs)]"
      using Cons.prems(1) f' c' Cons.prems(4) rest by (rule Cons.IH)
    then show ?thesis
      unfolding a unf using False by (simp add: answers_to_Cons)
  next
    case True
    have within: "\<forall>e. ex = Some e \<longrightarrow> t < e"
      using Cons.prems(5) True by (simp add: a)
    have live: "live_counter t (counter_key u) s = Some (k, ex)"
      using Cons.prems(3) within by (cases ex) (auto simp: live_counter_def)
    have cur: "current_count t u s = k"
      by (simp add: current_count_def live)
    have r: "fst (Allow ?l ctx t u s) = (k + 1 \<le> lmt, None)"
      using Allow_result [OF Cons.prems(1,2), of lmt win t u] by (simp add: cur)
    have s2: "snd (Allow ?l ctx t u s) = s\<lparr>counters := (counters s)(counter_key u \<mapsto> (k + 1, ex))\<rparr>"
      using Cons.prems live by (intro Allow_later) auto
    have c': "counters (snd (Allow ?l ctx t u s)) (counter_key u) = Some (k + 1, ex)"
      unfolding s2 by simp
    have k': "1 \<le> k + 1" using Cons.prems(4) by simp
    have f'': "\<not> failing (snd (Allow ?l ctx t u s)) INCR"
      using f' True by simp
    have tl: "answers_to u rs (Allow_requests ?l ctx rs (snd (Allow ?l ctx t u s)))
        = map (\<lambda>i. (k + 1 + 1 + int i \<le> lmt, None)) [0..<length (filter (\<lambda>(t, v). v = u) rs)]"
      using Cons.prems(1) f'' c' k' rest by (rule Cons.IH)
    have tl': "answers_to u rs (Allow_requests ?l ctx rs (snd (Allow ?l ctx t u s)))
        = map (\<lambda>i. (k + 1 + int (Suc i) \<le> lmt, None)) [0..<length (filter (\<lambda>(t, v). v = u) rs)]"
      unfolding tl by (simp add: add.commute add.left_commute)
    have "answers_to u (a # rs) (Allow_requests ?l ctx (a # rs) s)
        = (k + 1 + int 0 \<le> lmt, None)
          # map (\<lambda>i. (k + 1 + int (Suc i) \<le> lmt, None)) [0..<length (filter (\<lambda>(t, v). v = u) rs)]"
      unfolding a unf using True by (simp add: answers_to_Cons r tl')
    also have "\<dots> = map (\<lambda>i. (k + 1 + int i \<le> lmt, None))
        [0..<Suc (length (filter (\<lambda>(t, v). v = u) rs))]"
      by (simp add: map_upt_Suc del: upt_Suc)
    finally show ?thesis
      using True by (simp add: a)
  qed
qed

lemma effective_window:
  "0 < win \<Longrightarrow> formatSec win * Second = (if win < Second then Second else win - win mod Second)"
  by (auto simp: formatSec_def Second_def Nanosecond_def minus_mod_eq_div_mult [symmetric])

lemma Allow_requests_window:
  assumes "\<not> Done ctx" and "\<not> failing s INCR" and "0 < win"
    and "live_counter now (counter_key u) s = None"
    and "\<forall>(t, v)\<in>set rs. v = u \<longrightarrow> t < now + formatSec win * Second"
  shows "answers_to u ((now, u) # rs)
            (Allow_requests (FixedWindowLimiter lmt win) ctx ((now, u) # rs) s)
         = map (\<lambda>i. (int i + 1 \<le> lmt, None)) [0..<Suc (length (filter (\<lambda>(t, v). v = u) rs))]"
proof -
  let ?l = "FixedWindowLimiter lmt win"
  let ?key = "counter_key u"
  have cur: "current_count now u s = 0"
    using assms(4) by (simp add: current_count_def)
  define s1 where "s1 = snd (Allow ?l ctx now u s)"
  define ex where "ex = (if failing s EXPIRE then None else Some (now + formatSec win * Second))"
  have c1: "fst (Allow ?l ctx now u s) = (current_count now u s + 1 \<le> lmt, None)"
    using assms(1,2) by (rule Allow_result)
  have cnt: "counters s1 ?key = Some (1, ex)"
    unfolding s1_def ex_def using Allow_first [OF assms(1,2) cur assms(3), of lmt] assms(4) by simp
  have f1: "\<not> failing s1 INCR"
    unfolding s1_def using assms(2) by (simp add: Allow_failing)
  have within: "\<forall>(t, v)\<in>set rs. v = u \<longrightarrow> (\<forall>e. ex = Some e \<longrightarrow> t < e)"
    using assms(5) by (auto simp: ex_def)
  have rest: "answers_to u rs (Allow_requests ?l ctx rs s1)
      = map (\<lambda>i. (1 + 1 + int i \<le> lmt, None)) [0..<length (filter (\<lambda>(t, v). v = u) rs)]"
    using assms(1) f1 cnt _ within by (rule Allow_requests_running) simp
  have "answers_to u ((now, u) # rs) (Allow_requests ?l ctx ((now, u) # rs) s)
      = fst (Allow ?l ctx now u s) # answers_to u rs (Allow_requests ?l ctx rs s1)"
    unfolding s1_def by (simp add: case_prod_beta answers_to_Cons)
  also have "\<dots> = (int 0 + 1 \<le> lmt, None)
      # map (\<lambda>i. (int (Suc i) + 1 \<le> lmt, None)) [0..<length (filter (\<lambda>(t, v). v = u) rs)]"
    unfolding c1 rest by (simp add: cur add.commute add.left_commute)
  also have "\<dots> = map (\<lambda>i. (int i + 1 \<le> lmt, None))
      [0..<Suc (length (filter (\<lambda>(t, v). v = u) rs))]"
    by (simp add: map_upt_Suc del: upt_Suc)
  finally show ?thesis .
qed

lemma counter_after_first:
  assumes "\<not> Done ctx" and "\<not> failing s INCR" and "0 < win"
    and "current_count now u s = 0" and "\<not> failing s EXPIRE"
  shows "current_count t u (snd (Allow (FixedWindowLimiter lmt win) ctx now u s))
           = (if t < now + formatSec win * Second then 1 else 0)"
  using Allow_first [OF assms(1,2,4,3), of lmt] assms(5)
  by (simp add: current_count_def live_counter_def)

lemma Allow_positive_window:
  assumes "\<not> Done ctx" and "\<not> failing s INCR" and "0 < win"
  shows "fst (Allow (FixedWindowLimiter lmt win) ctx now u s)
           = (current_count now u s + 1 \<le> lmt, None)
    \<and> current_count now u (snd (Allow (FixedWindowLimiter lmt win) ctx now u s))
           = current_count now u s + 1
    \<and> (current_count now u s + 1 \<noteq> 1 \<longrightarrow>
          (\<forall>v ex. live_counter now (counter_key u) s = Some (v, ex) \<longrightarrow>
             counters (snd (Allow (FixedWindowLimiter lmt win) ctx now u s)) (counter_key u)
               = Some (v + 1, ex)))
    \<and> (current_count now u s + 1 = 1 \<and> \<not> failing s EXPIRE \<longrightarrow>
          counters (snd (Allow (FixedWindowLimiter lmt win) ctx now u s)) (counter_key u)
            = Some (1, Some (now + formatSec win * Second))
          \<and> current_count t u (snd (Allow (FixedWindowLimiter lmt win) ctx now u s))
            = (if t < now + formatSec win * Second then 1 else 0))
    \<and> formatSec win * Second = (if win < Second then Second else win - win mod Second)
    \<and> (v \<noteq> u \<longrightarrow>
          counters (snd (Allow (FixedWindowLimiter lmt win) ctx now v s)) (counter_key u)
            = counters s (counter_key u))
    \<and> (live_counter now (counter_key u) s = None
        \<and> (\<forall>(t, v)\<in>set rs. v = u \<longrightarrow> t < now + formatSec win * Second) \<longrightarrow>
          answers_to u ((now, u) # rs)
             (Allow_requests (FixedWindowLimiter lmt win) ctx ((now, u) # rs) s)
            = map (\<lambda>i. (int i + 1 \<le> lmt, None))
                [0..<Suc (length (filter (\<lambda>(t, v). v = u) rs))])"
proof -
  let ?l = "FixedWindowLimiter lmt win"
  let ?key = "counter_key u"
  have pos: "0 < formatSec win * Second"
    using formatSec_pos [OF assms(3)] by (simp add: Second_def Nanosecond_def)
  have c1: "fst (Allow ?l ctx now u s) = (current_count now u s + 1 \<le> lmt, None)"
    using assms(1,2) by (rule Allow_result)
  have c3: "current_count now u s + 1 \<noteq> 1 \<longrightarrow>
          (\<forall>v ex. live_counter now ?key s = Some (v, ex) \<longrightarrow>
             counters (snd (Allow ?l ctx now u s)) ?key = Some (v + 1, ex))"
  proof (intro impI allI)
    fix v ex
    assume n: "current_count now u s + 1 \<noteq> 1" and l: "live_counter now ?key s = Some (v, ex)"
    then have "v \<noteq> 0" by (simp add: current_count_def)
    from Allow_later [OF assms(1,2) l this, of lmt win]
    show "counters (snd (Allow ?l ctx now u s)) ?key = Some (v + 1, ex)"
      by simp
  qed
  have first: "current_count now u s = 0 \<Longrightarrow>
      counters (snd (Allow ?l ctx now u s)) ?key
        = Some (1, if failing s EXPIRE
                   then (case live_counter now ?key s of None \<Rightarrow> None | Some (v, ex) \<Rightarrow> ex)
                   else Some (now + formatSec win * Second))"
    using assms by (intro Allow_first)
  have c4: "current_count now u s + 1 = 1 \<and> \<not> failing s EXPIRE \<longrightarrow>
          counters (snd (Allow ?l ctx now u s)) ?key = Some (1, Some (now + formatSec win * Second))"
    using first by simp
  have c2: "current_count now u (snd (Allow ?l ctx now u s)) = current_count now u s + 1"
  proof (cases "current_count now u s = 0")
    case True
    define s1 where "s1 = snd (Allow ?l ctx now u s)"
    define ex where "ex = (if failing s EXPIRE
                   then (case live_counter now ?key s of None \<Rightarrow> None | Some (v, ex) \<Rightarrow> ex)
                   else Some (now + formatSec win * Second))"
    have cnt: "counters s1 ?key = Some (1, ex)"
      unfolding s1_def ex_def by (rule first [OF True])
    have live_gt: "\<And>v e. live_counter now ?key s = Some (v, Some e) \<Longrightarrow> now < e"
      by (auto simp: live_counter_def split: option.splits if_splits)
    have ex_gt: "\<And>e. ex = Some e \<Longrightarrow> now < e"
      using pos live_gt by (auto simp: ex_def split: if_splits option.splits)
    have "live_counter now ?key s1 = Some (1, ex)"
      unfolding live_counter_def cnt using ex_gt by (cases ex) auto
    then have "current_count now u s1 = 1"
      by (simp add: current_count_def)
    then show ?thesis
      unfolding s1_def using True by simp
  next
    case False
    then obtain v ex where l: "live_counter now ?key s = Some (v, ex)" and v: "v \<noteq> 0"
      by (auto simp: current_count_def split: option.splits)
    have s2: "snd (Allow ?l ctx now u s) = s\<lparr>counters := (counters s)(?key \<mapsto> (v + 1, ex))\<rparr>"
      using assms(1,2) l v by (rule Allow_later)
    have "\<And>e. ex = Some e \<Longrightarrow> now < e"
      using l by (auto simp: live_counter_def split: option.splits if_splits)
    then have "live_counter now ?key (snd (Allow ?l ctx now u s)) = Some (v + 1, ex)"
      unfolding s2 live_counter_after_update by (cases ex) auto
    then show ?thesis
      using l by (simp add: current_count_def)
  qed
  have c4': "current_count now u s + 1 = 1 \<and> \<not> failing s EXPIRE \<longrightarrow>
          counters (snd (Allow ?l ctx now u s)) ?key = Some (1, Some (now + formatSec win * Second))
          \<and> current_count t u (snd (Allow ?l ctx now u s))
            = (if t < now + formatSec win * Second then 1 else 0)"
    using c4 counter_after_first [OF assms(1,2,3), where now = now and u = u and lmt = lmt and t = t]
    by simp
  have c5: "formatSec win * Second = (if win < Second then Second else win - win mod Second)"
    using assms(3) by (rule effective_window)
  have c6: "v \<noteq> u \<longrightarrow>
          counters (snd (Allow ?l ctx now v s)) ?key = counters s ?key"
    by (simp add: Allow_other)
  have c7: "live_counter now ?key s = None
        \<and> (\<forall>(t, v)\<in>set rs. v = u \<longrightarrow> t < now + formatSec win * Second) \<longrightarrow>
          answers_to u ((now, u) # rs) (Allow_requests ?l ctx ((now, u) # rs) s)
            = map (\<lambda>i. (int i + 1 \<le> lmt, None))
                [0..<Suc (length (filter (\<lambda>(t, v). v = u) rs))]"
    using Allow_requests_window [OF assms, where now = now and u = u and rs = rs and lmt = lmt]
    by simp
  show ?thesis
    using c1 c2 c3 c4' c5 c6 c7 by (intro conjI)
qed

lemma formatSec_nonpos: "win \<le> 0 \<Longrightarrow> formatSec win \<le> 0"
  by (auto simp: formatSec_def Second_def Nanosecond_def)

lemma Allow_nonpositive_window:
  assumes "\<not> Done ctx" "\<not> failing s INCR" "win \<le> 0"
    "current_count now u s = 0" "\<not> failing s EXPIRE"
  shows "counters (snd (Allow (FixedWindowLimiter lmt win) ctx now u s)) (counter_key u) = None"
  using assms formatSec_nonpos [of win]
  by (auto simp: Allow.simps current_count_def Incr_def Expire_def command_error_def
      live_counter_def Let_def split: option.splits prod.splits if_splits)

text \<open>
  C5, as amended. A call of \<open>Allow\<close> that reaches the store answers "allowed" exactly when the
  count after the increment is at most the limit. When that count is not 1 the counter
  shows one more than before and its expiry is left as it is; a request of another user
  does not touch the counter. When the count is 1 (the increment created the counter) and
  \<open>EXPIRE\<close> is served, the counter is given the effective window: the window the store is
  told, which is the configured window cut down to whole seconds, and one second for a
  shorter positive window; the counter lapses once it has passed and counts from 1 again
  after that. (A window that is not positive makes the store delete the counter at once.)
  Hence, among requests of any users, the requests of one user that begin a window (no
  live counter at the first) and fall before the end of the effective window are answered
  by their number: request \<open>N\<close> of that user (counting from 1) is allowed exactly when \<open>N\<close>
  is at most the limit, whatever the other users request in between.
\<close>

theorem fixed_window_allows_up_to_limit:
  assumes "\<not> Done ctx" and "\<not> failing s INCR"
  shows "fst (Allow (FixedWindowLimiter lmt win) ctx now u s)
           = (current_count now u s + 1 \<le> lmt, None)
    \<and> (current_count now u s + 1 \<noteq> 1 \<longrightarrow>
          (\<forall>v ex. live_counter now (counter_key u) s = Some (v, ex) \<longrightarrow>
             counters (snd (Allow (FixedWindowLimiter lmt win) ctx now u s)) (counter_key u)
               = Some (v + 1, ex)))
    \<and> (v \<noteq> u \<longrightarrow>
          counters (snd (Allow (FixedWindowLimiter lmt win) ctx now v s)) (counter_key u)
            = counters s (counter_key u))
    \<and> (win \<le> 0 \<and> current_count now u s + 1 = 1 \<and> \<not> failing s EXPIRE \<longrightarrow>
          counters (snd (Allow (FixedWindowLimiter lmt win) ctx now u s)) (counter_key u) = None)
    \<and> (0 < win \<longrightarrow>
          current_count now u (snd (Allow (FixedWindowLimiter lmt win) ctx now u s))
            = current_count now u s + 1
        \<and> (current_count now u s + 1 = 1 \<and> \<not> failing s EXPIRE \<longrightarrow>
              counters (snd (Allow (FixedWindowLimiter lmt win) ctx now u s)) (counter_key u)
                = Some (1, Some (now + formatSec win * Second))
              \<and> current_count t u (snd (Allow (FixedWindowLimiter lmt win) ctx now u s))
                = (if t < now + formatSec win * Second then 1 else 0))
        \<and> formatSec win * Second = (if win < Second then Second else win - win mod Second)
        \<and> (live_counter now (counter_key u) s = None
            \<and> (\<forall>(t, v)\<in>set rs. v = u \<longrightarrow> t < now + formatSec win * Second) \<longrightarrow>
              answers_to u ((now, u) # rs)
                 (Allow_requests (FixedWindowLimiter lmt win) ctx ((now, u) # rs) s)
                = map (\<lambda>i. (int i + 1 \<le> lmt, None))
                    [0..<Suc (length (filter (\<lambda>(t, v). v = u) rs))]))"
proof -
  let ?l = "FixedWindowLimiter lmt win"
  let ?key = "counter_key u"
  have c1: "fst (Allow ?l ctx now u s) = (current_count now u s + 1 \<le> lmt, None)"
    using assms by (rule Allow_result)
  have c3: "current_count now u s + 1 \<noteq> 1 \<longrightarrow>
          (\<forall>v ex. live_counter now ?key s = Some (v, ex) \<longrightarrow>
             counters (snd (Allow ?l ctx now u s)) ?key = Some (v + 1, ex))"
  proof (intro impI allI)
    fix v ex
    assume n: "current_count now u s + 1 \<noteq> 1" and l: "live_counter now ?key s = Some (v, ex)"
    then have "v \<noteq> 0" by (simp add: current_count_def)
    from Allow_later [OF assms l this, of lmt win]
    show "counters (snd (Allow ?l ctx now u s)) ?key = Some (v + 1, ex)"
      by simp
  qed
  have c6: "v \<noteq> u \<longrightarrow> counters (snd (Allow ?l ctx now v s)) ?key = counters s ?key"
    by (simp add: Allow_other)
  have c0: "win \<le> 0 \<and> current_count now u s + 1 = 1 \<and> \<not> failing s EXPIRE \<longrightarrow>
          counters (snd (Allow ?l ctx now u s)) ?key = None"
    using Allow_nonpositive_window [OF assms, of win now u lmt] by simp
  have pos: "0 < win \<longrightarrow>
          current_count now u (snd (Allow ?l ctx now u s)) = current_count now u s + 1
        \<and> (current_count now u s + 1 = 1 \<and> \<not> failing s EXPIRE \<longrightarrow>
              counters (snd (Allow ?l ctx now u s)) ?key
                = Some (1, Some (now + formatSec win * Second))
              \<and> current_count t u (snd (Allow ?l ctx now u s))
                = (if t < now + formatSec win * Second then 1 else 0))
        \<and> formatSec win * Second = (if win < Second then Second else win - win mod Second)
        \<and> (live_counter now ?key s = None
            \<and> (\<forall>(t, v)\<in>set rs. v = u \<longrightarrow> t < now + formatSec win * Second) \<longrightarrow>
              answers_to u ((now, u) # rs) (Allow_requests ?l ctx ((now, u) # rs) s)
                = map (\<lambda>i. (int i + 1 \<le> lmt, None))
                    [0..<Suc (length (filter (\<lambda>(t, v). v = u) rs))])"
  proof
    assume w: "0 < win"
    note p = Allow_positive_window [OF assms w, where lmt = lmt and now = now and u = u
        and t = t and rs = rs and v = v]
    show "current_count now u (snd (Allow ?l ctx now u s)) = current_count now u s + 1
        \<and> (current_count now u s + 1 = 1 \<and> \<not> failing s EXPIRE \<longrightarrow>
              counters (snd (Allow ?l ctx now u s)) ?key
                = Some (1, Some (now + formatSec win * Second))
              \<and> current_count t u (snd (Allow ?l ctx now u s))
                = (if t < now + formatSec win * Second then 1 else 0))
        \<and> formatSec win * Second = (if win < Second then Second else win - win mod Second)
        \<and> (live_counter now ?key s = None
            \<and> (\<forall>(t, v)\<in>set rs. v = u \<longrightarrow> t < now + formatSec win * Second) \<longrightarrow>
              answers_to u ((now, u) # rs) (Allow_requests ?l ctx ((now, u) # rs) s)
                = map (\<lambda>i. (int i + 1 \<le> lmt, None))
                    [0..<Suc (length (filter (\<lambda>(t, v). v = u) rs))])"
      using p by (intro conjI) (rule p [THEN conjunct2, THEN conjunct1],
          rule p [THEN conjunct2, THEN conjunct2, THEN conjunct2, THEN conjunct1],
          rule p [THEN conjunct2, THEN conjunct2, THEN conjunct2, THEN conjunct2, THEN conjunct1],
          rule p [THEN conjunct2, THEN conjunct2, THEN conjunct2, THEN conjunct2, THEN conjunct2,
            THEN conjunct2])
  qed
  show ?thesis
    using c1 c3 c6 c0 pos by (intro conjI)
qed


theorem fixed_window_allows_up_to_limit_witness:
  "\<not> Done Background \<and> \<not> failing empty_store INCR \<and> (0::int) < 60 * Second
   \<and> live_counter 0 (counter_key ''u1'') empty_store = None
   \<and> (7::int) < 0 + formatSec (60 * Second) * Second
   \<and> answers_to ''u1''
        [(0, ''u1''), (1, ''u2''), (2, ''u1''), (3, ''u1''), (4, ''u2''), (5, ''u1''),
         (6, ''u1''), (7, ''u1'')]
        (Allow_requests api_limiter Background
           [(0, ''u1''), (1, ''u2''), (2, ''u1''), (3, ''u1''), (4, ''u2''), (5, ''u1''),
            (6, ''u1''), (7, ''u1'')] empty_store)
       = [(True, None), (True, None), (True, None), (True, None), (True, None), (False, None)]"
proof -
  define rs :: "(int \<times> string) list" where
    "rs = [(1, ''u2''), (2, ''u1''), (3, ''u1''), (4, ''u2''), (5, ''u1''), (6, ''u1''), (7, ''u1'')]"
  have h1: "\<not> Done Background" and h2: "\<not> failing empty_store INCR"
    and h3: "(0::int) < 60 * Second"
    by (simp_all add: empty_store_def Second_def Nanosecond_def)
  have l0: "live_counter 0 (counter_key ''u1'') empty_store = None"
    by (simp add: live_counter_def empty_store_def)
  have w: "(7::int) < 0 + formatSec (60 * Second) * Second"
    by (simp add: formatSec_def Second_def Nanosecond_def)
  have pre: "live_counter 0 (counter_key ''u1'') empty_store = None
      \<and> (\<forall>(t, v)\<in>set rs. v = ''u1'' \<longrightarrow> t < 0 + formatSec (60 * Second) * Second)"
    using l0 by (simp add: rs_def formatSec_def Second_def Nanosecond_def)
  have n: "length (filter (\<lambda>(t, v). v = ''u1'') rs) = 5"
    by (simp add: rs_def)
  note r = fixed_window_allows_up_to_limit [OF h1 h2, where lmt = 5 and now = 0
      and win = "60 * Second" and u = "''u1''" and rs = rs,
      THEN conjunct2, THEN conjunct2, THEN conjunct2, THEN conjunct2, THEN mp, OF h3]
  have "answers_to ''u1'' ((0, ''u1'') # rs)
          (Allow_requests (FixedWindowLimiter 5 (60 * Second)) Background ((0, ''u1'') # rs)
             empty_store)
        = map (\<lambda>i. (int i + 1 \<le> 5, None)) [0..<Suc (length (filter (\<lambda>(t, v). v = ''u1'') rs))]"
    using r [THEN conjunct2, THEN conjunct2, THEN conjunct2, THEN mp, OF pre] .
  also have "\<dots> = [(True, None), (True, None), (True, None), (True, None), (True, None),
      (False, None)]"
    unfolding n by (simp add: upt_rec)
  finally have "answers_to ''u1'' ((0, ''u1'') # rs)
          (Allow_requests api_limiter Background ((0, ''u1'') # rs) empty_store)
       = [(True, None), (True, None), (True, None), (True, None), (True, None), (False, None)]"
    by (simp add: api_limiter_def NewFixedWindowLimiter_def)
  then have "answers_to ''u1''
        [(0, ''u1''), (1, ''u2''), (2, ''u1''), (3, ''u1''), (4, ''u2''), (5, ''u1''),
         (6, ''u1''), (7, ''u1'')]
        (Allow_requests api_limiter Background
           [(0, ''u1''), (1, ''u2''), (2, ''u1''), (3, ''u1''), (4, ''u2''), (5, ''u1''),
            (6, ''u1''), (7, ''u1'')] empty_store)
       = [(True, None), (True, None), (True, None), (True, None), (True, None), (False, None)]"
    unfolding rs_def .
  with h1 h2 h3 l0 w show ?thesis by (intro conjI)
qed

text \<open>
  C5, as stated, fails for a window that is not a whole number of seconds: with limit 1
  and a window of 1.5 s the store is told to let the counter lapse after 1 s, and a
  second request of the same user at 1.2 s, inside the window, is allowed.
\<close>

theorem fractional_window_admits_beyond_limit:
  "(1200000000::int) < 0 + 1500000000
   \<and> Allow_requests (NewFixedWindowLimiter 1 1500000000) Background
        [(0, ''u1''), (1200000000, ''u1'')] empty_store
       = [(True, None), (True, None)]"
  by (simp add: NewFixedWindowLimiter_def Allow.simps Incr_def Expire_def command_error_def
      live_counter_def formatSec_def counter_key_def empty_store_def Let_def
      Second_def Nanosecond_def)

section \<open>Properties of the serialisation\<close>

subsection \<open>Bytes\<close>

lemma byte_less_256: "byte c < 256"
  by (simp add: byte_def)

lemma char_of_byte: "char_of (byte c) = c"
  by (simp add: byte_def)

lemma byte_char_of: "n < 256 \<Longrightarrow> byte (char_of n) = n"
  by (simp add: byte_def)

lemma byte_eq_iff: "n < 256 \<Longrightarrow> byte c = n \<longleftrightarrow> c = char_of n"
  using byte_char_of char_of_byte by metis

lemma byte_specials:
  "byte dq = 0x22" "byte bsl = 0x5C" "byte (CHR ''u'') = 0x75" "byte (CHR '','') = 0x2C"
  "byte (CHR ''-'') = 0x2D"
  by (simp_all add: byte_def dq_def bsl_def)

lemma take_bit8: "n < 256 \<Longrightarrow> take_bit 8 n = (n::nat)"
  by (simp add: take_bit_nat_eq_self)

lemma below_16: "[0..<16] = [0, 1, 2, 3, 4, 5, 6, 7, 8, 9, 10, 11, 12, 13, 14, 15::nat]"
  by code_simp

lemma hexval_hex_all: "list_all (\<lambda>n. hexval (hex n) = Some n) [0..<16]"
  unfolding below_16 by (simp add: hex_def hexval_def byte_def)

lemma hexval_hex: "n < 16 \<Longrightarrow> hexval (hex n) = Some n"
  using hexval_hex_all by (simp add: list_all_iff)

lemma unquote_escape_ascii:
  assumes "byte c < 0x80"
  shows "unquote (escape_ascii c @ r) = emit [c] (unquote r)"
proof -
  define b where "b = byte c"
  have c: "c = char_of b" by (simp add: b_def char_of_byte)
  have b: "b < 0x80" using assms by (simp add: b_def)
  have ne: "c \<noteq> dq \<longleftrightarrow> b \<noteq> 0x22" "c \<noteq> bsl \<longleftrightarrow> b \<noteq> 0x5C"
    using b by (auto simp: c dq_def bsl_def char_of_eq_iff take_bit8)
  consider (safe) "htmlSafe b"
    | (quote) "c = bsl \<or> c = dq"
    | (named) "b \<in> {0x08, 0x0C, 0x0A, 0x0D, 0x09}"
    | (other) "\<not> htmlSafe b" "c \<noteq> bsl" "c \<noteq> dq" "b \<notin> {0x08, 0x0C, 0x0A, 0x0D, 0x09}"
    by blast
  then show ?thesis
  proof cases
    case safe
    then have "escape_ascii c = [c]"
      by (simp add: escape_ascii_def b_def)
    moreover have "c \<noteq> dq" "c \<noteq> bsl" "\<not> byte c < 0x20" "byte c < 0x80"
      using safe ne by (auto simp: htmlSafe_def b_def)
    ultimately show ?thesis by simp
  next
    case quote
    then show ?thesis
      by (auto simp: escape_ascii_def htmlSafe_def byte_specials simple_escape_def
          dq_def bsl_def byte_def)
  next
    case named
    then have "c \<in> {CHR 0x08, CHR 0x0C, CHR 0x0A, CHR 0x0D, CHR 0x09}"
      unfolding c using b by (auto simp: char_of_eq_iff take_bit8)
    then show ?thesis
      by (auto simp: escape_ascii_def htmlSafe_def simple_escape_def dq_def bsl_def byte_def)
  next
    case other
    have esc: "escape_ascii c = [bsl, CHR ''u'', CHR ''0'', CHR ''0'', hex (b div 16), hex (b mod 16)]"
      using other by (simp add: escape_ascii_def b_def [symmetric] Let_def)
    have z: "hexval (CHR ''0'') = Some 0"
      by (simp add: hexval_def byte_def)
    have hi: "hexval (hex (b div 16)) = Some (b div 16)"
      and lo: "hexval (hex (b mod 16)) = Some (b mod 16)"
      using b by (simp_all add: hexval_hex)
    have h4: "hex4 (CHR ''0'' # CHR ''0'' # hex (b div 16) # hex (b mod 16) # r) = Some b"
      by (simp add: hex4_def z hi lo)
    have enc: "EncodeRune b = [c]"
      using b by (simp add: EncodeRune_def c)
    have "\<not> IsSurrogate b"
      using b by (simp add: IsSurrogate_def)
    then show ?thesis
      unfolding esc by (simp add: h4 enc bsl_def dq_def)
  qed
qed

subsection \<open>Integers\<close>

lemma digit_char_props:
  assumes "d < 10"
  shows "is_digit (digit_char d)" "byte (digit_char d) - 0x30 = d"
    "digit_char d = CHR ''0'' \<longleftrightarrow> d = 0"
  using assms
  by (auto simp: is_digit_def digit_char_def byte_def char_of_eq_iff take_bit8)

lemma digits_value_snoc:
  "digits_value (ds @ [c]) = 10 * digits_value ds + (byte c - 0x30)"
  by (simp add: digits_value_def)

lemma utoa_props:
  "list_all is_digit (utoa n) \<and> utoa n \<noteq> [] \<and> digits_value (utoa n) = n
   \<and> (hd (utoa n) = CHR ''0'' \<longrightarrow> n = 0)"
proof (induction n rule: utoa.induct)
  case (1 n)
  show ?case
  proof (cases "n < 10")
    case True
    then show ?thesis
      by (simp add: utoa.simps [of n] digit_char_props digits_value_def)
  next
    case False
    then have ih: "list_all is_digit (utoa (n div 10))" "utoa (n div 10) \<noteq> []"
      "digits_value (utoa (n div 10)) = n div 10"
      "hd (utoa (n div 10)) = CHR ''0'' \<longrightarrow> n div 10 = 0"
      using "1.IH" by simp_all
    have u: "utoa n = utoa (n div 10) @ [digit_char (n mod 10)]"
      using False by (simp add: utoa.simps [of n])
    have "n div 10 \<noteq> 0" using False by simp
    then show ?thesis
      unfolding u using ih
      by (simp add: digit_char_props digits_value_snoc)
  qed
qed

lemma utoa_length_one: "hd (utoa n) = CHR ''0'' \<Longrightarrow> length (utoa n) = 1"
  using utoa_props [of n] by (auto simp: utoa.simps [of 0])

lemma takeWhile_digits:
  assumes "list_all is_digit ds" "\<not> is_digit c"
  shows "takeWhile is_digit (ds @ c # rest) = ds" "dropWhile is_digit (ds @ c # rest) = c # rest"
  using assms by (induction ds) auto

lemma scan_int64_FormatInt:
  assumes "is_int64 i" "\<not> is_digit c"
  shows "scan_int64 (FormatInt i @ c # rest) = Some (i, c # rest)"
proof (cases "i < 0")
  case True
  define n where "n = nat (- i)"
  have f: "FormatInt i = CHR ''-'' # utoa n"
    using True by (simp add: FormatInt_def n_def)
  have p: "list_all is_digit (utoa n)" "utoa n \<noteq> []" "digits_value (utoa n) = n"
    using utoa_props [of n] by simp_all
  have l: "hd (utoa n) = CHR ''0'' \<Longrightarrow> \<not> 1 < length (utoa n)"
    using utoa_length_one [of n] by simp
  have v: "- int n = i" using True by (simp add: n_def)
  show ?thesis
    unfolding f scan_int64_def
    using assms(1) l v
    by (simp add: Let_def takeWhile_digits [OF p(1) assms(2)] p is_int64_def)
next
  case False
  define n where "n = nat i"
  have f: "FormatInt i = utoa n"
    using False by (simp add: FormatInt_def n_def)
  have p: "list_all is_digit (utoa n)" "utoa n \<noteq> []" "digits_value (utoa n) = n"
    using utoa_props [of n] by simp_all
  have "is_digit (hd (utoa n))"
    using p(1,2) by (cases "utoa n") simp_all
  then have nm: "hd (utoa n) \<noteq> CHR ''-''"
    by (auto simp: is_digit_def byte_def)
  have l: "hd (utoa n) = CHR ''0'' \<Longrightarrow> \<not> 1 < length (utoa n)"
    using utoa_length_one [of n] by simp
  have v: "int n = i" using False by (simp add: n_def)
  have hd_app: "hd (utoa n @ c # rest) = hd (utoa n)"
    using p(2) by simp
  show ?thesis
    unfolding f scan_int64_def
    using assms(1) l v nm
    by (simp add: Let_def hd_app takeWhile_digits [OF p(1) assms(2)] p is_int64_def)
qed

subsection \<open>UTF-8\<close>

lemma mod_offset: "x < m \<Longrightarrow> (k * m + x) mod m = (x::nat)"
  by simp

lemma enc2:
  fixes s0 s1 :: nat
  assumes "194 \<le> s0" "s0 < 224" "128 \<le> s1" "s1 \<le> 191"
  defines "r \<equiv> s0 mod 32 * 64 + s1 mod 64"
  shows "127 < r" "r \<le> 2047" "192 + r div 64 = s0" "128 + r mod 64 = s1"
proof -
  define a where "a = s0 - 192"
  define b where "b = s1 - 128"
  have s0: "s0 = 192 + a" and a: "2 \<le> a" "a < 32"
    using assms by (simp_all add: a_def)
  have s1: "s1 = 128 + b" and b: "b < 64"
    using assms by (simp_all add: b_def)
  have m0: "s0 mod 32 = a" using mod_offset [of a 32 6] a by (simp add: s0)
  have m1: "s1 mod 64 = b" using mod_offset [of b 64 2] b by (simp add: s1)
  have r: "r = a * 64 + b" by (simp add: r_def m0 m1)
  show "127 < r" "r \<le> 2047" "192 + r div 64 = s0" "128 + r mod 64 = s1"
    unfolding r using a b by (simp_all add: s0 s1)
qed

lemma enc3:
  fixes s0 s1 s2 :: nat
  assumes "224 \<le> s0" "s0 < 240" "128 \<le> s1" "s1 \<le> 191" "128 \<le> s2" "s2 \<le> 191"
    "s0 = 224 \<longrightarrow> 160 \<le> s1" "s0 = 237 \<longrightarrow> s1 \<le> 159"
  defines "r \<equiv> s0 mod 16 * 4096 + s1 mod 64 * 64 + s2 mod 64"
  shows "2047 < r" "r \<le> 65535" "\<not> (55296 \<le> r \<and> r \<le> 57343)"
    "224 + r div 4096 = s0" "128 + r div 64 mod 64 = s1" "128 + r mod 64 = s2"
proof -
  define a where "a = s0 - 224"
  define b where "b = s1 - 128"
  define c where "c = s2 - 128"
  have s0: "s0 = 224 + a" and a: "a < 16"
    using assms by (simp_all add: a_def)
  have s1: "s1 = 128 + b" and b: "b < 64"
    using assms by (simp_all add: b_def)
  have s2: "s2 = 128 + c" and c: "c < 64"
    using assms by (simp_all add: c_def)
  have lo: "a = 0 \<longrightarrow> 32 \<le> b" and hi: "a = 13 \<longrightarrow> b \<le> 31"
    using assms(7,8) by (simp_all add: s0 s1)
  have m0: "s0 mod 16 = a" using mod_offset [of a 16 14] a by (simp add: s0)
  have m1: "s1 mod 64 = b" using mod_offset [of b 64 2] b by (simp add: s1)
  have m2: "s2 mod 64 = c" using mod_offset [of c 64 2] c by (simp add: s2)
  have r: "r = a * 4096 + (b * 64 + c)" by (simp add: r_def m0 m1 m2)
  have r': "r = (a * 64 + b) * 64 + c" by (simp add: r)
  have d1: "r div 4096 = a" unfolding r using b c by simp
  have d2: "r div 64 = a * 64 + b" unfolding r' using c by simp
  have d3: "r mod 64 = c" unfolding r' using c by (rule mod_offset)
  have d4: "(a * 64 + b) mod 64 = b" using b by (rule mod_offset)
  show "224 + r div 4096 = s0" unfolding d1 s0 by simp
  show "128 + r div 64 mod 64 = s1" unfolding d2 d4 s1 by simp
  show "128 + r mod 64 = s2" unfolding d3 s2 by simp
  show "2047 < r" "r \<le> 65535"
    unfolding r using a b c lo by auto
  consider (lt) "a \<le> 12" | (eq) "a = 13" | (gt) "14 \<le> a"
    by linarith
  then show "\<not> (55296 \<le> r \<and> r \<le> 57343)"
  proof cases
    case lt
    then show ?thesis unfolding r using b c by simp
  next
    case eq
    then show ?thesis unfolding r using b c hi by simp
  next
    case gt
    then show ?thesis unfolding r by simp
  qed
qed

lemma enc4:
  fixes s0 s1 s2 s3 :: nat
  assumes "240 \<le> s0" "s0 \<le> 244" "128 \<le> s1" "s1 \<le> 191" "128 \<le> s2" "s2 \<le> 191"
    "128 \<le> s3" "s3 \<le> 191"
    "s0 = 240 \<longrightarrow> 144 \<le> s1" "s0 = 244 \<longrightarrow> s1 \<le> 143"
  defines "r \<equiv> s0 mod 8 * 262144 + s1 mod 64 * 4096 + s2 mod 64 * 64 + s3 mod 64"
  shows "65535 < r" "r \<le> 1114111"
    "240 + r div 262144 = s0" "128 + r div 4096 mod 64 = s1" "128 + r div 64 mod 64 = s2"
    "128 + r mod 64 = s3"
proof -
  define a where "a = s0 - 240"
  define b where "b = s1 - 128"
  define c where "c = s2 - 128"
  define d where "d = s3 - 128"
  have s0: "s0 = 240 + a" and a: "a \<le> 4"
    using assms by (simp_all add: a_def)
  have s1: "s1 = 128 + b" and b: "b < 64"
    using assms by (simp_all add: b_def)
  have s2: "s2 = 128 + c" and c: "c < 64"
    using assms by (simp_all add: c_def)
  have s3: "s3 = 128 + d" and d: "d < 64"
    using assms by (simp_all add: d_def)
  have lo: "a = 0 \<longrightarrow> 16 \<le> b" and hi: "a = 4 \<longrightarrow> b \<le> 15"
    using assms(9,10) by (simp_all add: s0 s1)
  have m0: "s0 mod 8 = a" using mod_offset [of a 8 30] a by (simp add: s0)
  have m1: "s1 mod 64 = b" using mod_offset [of b 64 2] b by (simp add: s1)
  have m2: "s2 mod 64 = c" using mod_offset [of c 64 2] c by (simp add: s2)
  have m3: "s3 mod 64 = d" using mod_offset [of d 64 2] d by (simp add: s3)
  have r: "r = a * 262144 + (b * 4096 + c * 64 + d)" by (simp add: r_def m0 m1 m2 m3)
  have r': "r = (a * 64 + b) * 4096 + (c * 64 + d)" by (simp add: r)
  have r'': "r = ((a * 64 + b) * 64 + c) * 64 + d" by (simp add: r)
  have d1: "r div 262144 = a" unfolding r using b c d by simp
  have d2: "r div 4096 = a * 64 + b" unfolding r' using c d by simp
  have d3: "r div 64 = (a * 64 + b) * 64 + c" unfolding r'' using d by simp
  have d4: "r mod 64 = d" unfolding r'' using d by (rule mod_offset)
  have e1: "(a * 64 + b) mod 64 = b" using b by (rule mod_offset)
  have e2: "((a * 64 + b) * 64 + c) mod 64 = c" using c by (rule mod_offset)
  show "240 + r div 262144 = s0" unfolding d1 s0 by simp
  show "128 + r div 4096 mod 64 = s1" unfolding d2 e1 s1 by simp
  show "128 + r div 64 mod 64 = s2" unfolding d3 e2 s2 by simp
  show "128 + r mod 64 = s3" unfolding d4 s3 by simp
  show "65535 < r" "r \<le> 1114111"
    unfolding r using a b c d lo hi by auto
qed

lemma DecodeRune_ascii: "byte c < 0x80 \<Longrightarrow> DecodeRune (c # cs) = (byte c, 1)"
  by (simp add: DecodeRune_def)

lemma DecodeRune_bad_lead:
  "0x80 \<le> byte c \<Longrightarrow> byte c < 0xC2 \<or> 0xF4 < byte c \<Longrightarrow> DecodeRune (c # cs) = (RuneError, 1)"
  by (auto simp: DecodeRune_def)

lemma DecodeRune_2:
  assumes "0xC2 \<le> byte c" "byte c < 0xE0"
  shows "DecodeRune (c # cs) =
     (case cs of
        [] \<Rightarrow> (RuneError, 1)
      | c1 # r1 \<Rightarrow> if contb (byte c1) then (byte c mod 32 * 64 + byte c1 mod 64, 2)
                  else (RuneError, 1))"
  using assms
  by (auto simp: DecodeRune_def Let_def seq_size_def accept_lo_def accept_hi_def contb_def
      split: list.splits)

lemma DecodeRune_3:
  assumes "0xE0 \<le> byte c" "byte c < 0xF0"
  shows "DecodeRune (c # cs) =
     (case cs of
        c1 # c2 # r2 \<Rightarrow>
          if accept_lo (byte c) \<le> byte c1 \<and> byte c1 \<le> accept_hi (byte c) \<and> contb (byte c2)
          then (byte c mod 16 * 4096 + byte c1 mod 64 * 64 + byte c2 mod 64, 3)
          else (RuneError, 1)
      | _ \<Rightarrow> (RuneError, 1))"
  using assms
  by (auto simp: DecodeRune_def Let_def seq_size_def split: list.splits)

lemma DecodeRune_4:
  assumes "0xF0 \<le> byte c" "byte c \<le> 0xF4"
  shows "DecodeRune (c # cs) =
     (case cs of
        c1 # c2 # c3 # r3 \<Rightarrow>
          if accept_lo (byte c) \<le> byte c1 \<and> byte c1 \<le> accept_hi (byte c) \<and> contb (byte c2)
             \<and> contb (byte c3)
          then (byte c mod 8 * 262144 + byte c1 mod 64 * 4096 + byte c2 mod 64 * 64
                  + byte c3 mod 64, 4)
          else (RuneError, 1)
      | _ \<Rightarrow> (RuneError, 1))"
  using assms
  by (auto simp: DecodeRune_def Let_def seq_size_def split: list.splits)


lemma decode_valid:
  assumes d: "DecodeRune (c # cs) = (r, sz)" and nv: "\<not> (r = RuneError \<and> sz = 1)"
    and hi: "0x80 \<le> byte c"
  shows "sz - 1 \<le> length cs \<and> 2 \<le> sz \<and> EncodeRune r = c # take (sz - 1) cs
         \<and> DecodeRune (c # take (sz - 1) cs @ after) = (r, sz)"
proof -
  have "\<not> (byte c < 0xC2 \<or> 0xF4 < byte c)"
  proof
    assume "byte c < 0xC2 \<or> 0xF4 < byte c"
    from DecodeRune_bad_lead [OF hi this, of cs] d nv show False by simp
  qed
  then have lead: "0xC2 \<le> byte c" "byte c \<le> 0xF4"
    by simp_all
  consider (two) "byte c < 0xE0" | (three) "0xE0 \<le> byte c" "byte c < 0xF0" | (four) "0xF0 \<le> byte c"
    by linarith
  then show ?thesis
  proof cases
    case two
    from d nv DecodeRune_2 [OF lead(1) two, of cs]
    obtain c1 r1 where cs: "cs = c1 # r1" and c1: "contb (byte c1)"
      and r: "r = byte c mod 32 * 64 + byte c1 mod 64" and sz: "sz = 2"
      by (cases cs) (auto split: if_splits)
    have b1: "128 \<le> byte c1" "byte c1 \<le> 191"
      using c1 by (simp_all add: contb_def)
    have l: "194 \<le> byte c" "byte c < 224"
      using lead two by simp_all
    note e = enc2 [OF l b1, folded r]
    have enc: "EncodeRune r = [c, c1]"
      using e by (auto simp: EncodeRune_def char_of_byte)
    have dec: "DecodeRune (c # c1 # after) = (r, 2)"
      using c1 by (simp add: DecodeRune_2 [OF lead(1) two] r)
    show ?thesis
      by (simp add: cs sz enc dec)
  next
    case three
    from d nv DecodeRune_3 [OF three, of cs]
    obtain c1 c2 r2 where cs: "cs = c1 # c2 # r2"
      and a1: "accept_lo (byte c) \<le> byte c1" "byte c1 \<le> accept_hi (byte c)"
      and c2: "contb (byte c2)"
      and r: "r = byte c mod 16 * 4096 + byte c1 mod 64 * 64 + byte c2 mod 64" and sz: "sz = 3"
      by (cases cs; cases "tl cs") (auto split: if_splits)
    have b1: "128 \<le> byte c1" "byte c1 \<le> 191"
      and sp: "byte c = 224 \<longrightarrow> 160 \<le> byte c1" "byte c = 237 \<longrightarrow> byte c1 \<le> 159"
      using a1 by (auto simp: accept_lo_def accept_hi_def split: if_splits)
    have b2: "128 \<le> byte c2" "byte c2 \<le> 191"
      using c2 by (simp_all add: contb_def)
    have l: "224 \<le> byte c" "byte c < 240"
      using three by simp_all
    note e = enc3 [OF l b1 b2 sp, folded r]
    have enc: "EncodeRune r = [c, c1, c2]"
      using e by (auto simp: EncodeRune_def char_of_byte)
    have dec: "DecodeRune (c # c1 # c2 # after) = (r, 3)"
      using a1 c2 by (simp add: DecodeRune_3 [OF three] r)
    show ?thesis
      by (simp add: cs sz enc dec)
  next
    case four
    from d nv DecodeRune_4 [OF four lead(2), of cs]
    obtain c1 c2 c3 r3 where cs: "cs = c1 # c2 # c3 # r3"
      and a1: "accept_lo (byte c) \<le> byte c1" "byte c1 \<le> accept_hi (byte c)"
      and c2: "contb (byte c2)" and c3: "contb (byte c3)"
      and r: "r = byte c mod 8 * 262144 + byte c1 mod 64 * 4096 + byte c2 mod 64 * 64
                 + byte c3 mod 64"
      and sz: "sz = 4"
      by (cases cs; cases "tl cs"; cases "tl (tl cs)") (auto split: if_splits)
    have b1: "128 \<le> byte c1" "byte c1 \<le> 191"
      and sp: "byte c = 240 \<longrightarrow> 144 \<le> byte c1" "byte c = 244 \<longrightarrow> byte c1 \<le> 143"
      using a1 by (auto simp: accept_lo_def accept_hi_def split: if_splits)
    have b2: "128 \<le> byte c2" "byte c2 \<le> 191"
      using c2 by (simp_all add: contb_def)
    have b3: "128 \<le> byte c3" "byte c3 \<le> 191"
      using c3 by (simp_all add: contb_def)
    have l: "240 \<le> byte c" "byte c \<le> 244"
      using four lead by simp_all
    note e = enc4 [OF l b1 b2 b3 sp, folded r]
    have enc: "EncodeRune r = [c, c1, c2, c3]"
      using e by (auto simp: EncodeRune_def char_of_byte)
    have dec: "DecodeRune (c # c1 # c2 # c3 # after) = (r, 4)"
      using a1 c2 c3 by (simp add: DecodeRune_4 [OF four lead(2)] r)
    show ?thesis
      by (simp add: cs sz enc dec)
  qed
qed

subsection \<open>Strings\<close>

lemma high_not_special:
  assumes "0x80 \<le> byte c"
  shows "c \<noteq> dq" "c \<noteq> bsl" "\<not> byte c < 0x20" "\<not> byte c < 0x80"
  using assms by (auto simp: byte_specials)

lemma unquote_multibyte:
  assumes d: "DecodeRune (c # cs) = (r, sz)" and nv: "\<not> (r = RuneError \<and> sz = 1)"
    and hi: "0x80 \<le> byte c"
  shows "unquote (c # take (sz - 1) cs @ after) = emit (c # take (sz - 1) cs) (unquote after)"
proof -
  note f = decode_valid [OF d nv hi, of after]
  have len: "length (take (sz - 1) cs) = sz - 1"
    using f by simp
  have dr: "drop (sz - 1) (take (sz - 1) cs @ after) = after"
    using len by simp
  have "unquote (c # take (sz - 1) cs @ after)
      = emit (EncodeRune r) (unquote (drop (sz - 1) (take (sz - 1) cs @ after)))"
    using f high_not_special [OF hi] by (simp del: drop_append)
  then show ?thesis
    unfolding dr using f by simp
qed

lemma unquote_u202x:
  assumes "r = 0x2028 \<or> r = 0x2029"
  shows "unquote (bsl # ''u202'' @ hex (r mod 16) # after) = emit (EncodeRune r) (unquote after)"
  using assms
  by (auto simp: hex_def hex4_def hexval_def byte_def bsl_def dq_def IsSurrogate_def)

lemma unquote_escape:
  "ValidString s \<Longrightarrow> unquote (escape s @ dq # rest) = Some (s, rest)"
proof (induction "length s" arbitrary: s rule: less_induct)
  case less
  show ?case
  proof (cases s)
    case Nil
    then show ?thesis by simp
  next
    case (Cons c cs)
    obtain r sz where d: "DecodeRune (c # cs) = (r, sz)"
      by (cases "DecodeRune (c # cs)")
    have nv: "\<not> (r = RuneError \<and> sz = 1)" and v: "ValidString (drop (sz - 1) cs)"
      using less.prems d unfolding Cons by simp_all
    have "length (drop (sz - 1) cs) < length s"
      by (simp add: Cons)
    then have ih: "unquote (escape (drop (sz - 1) cs) @ dq # rest) = Some (drop (sz - 1) cs, rest)"
      using v by (rule less.hyps)
    show ?thesis
    proof (cases "byte c < 0x80")
      case True
      then have sz: "sz = 1"
        using d by (simp add: DecodeRune_ascii)
      have e: "escape (c # cs) = escape_ascii c @ escape cs"
        using True by simp
      have "unquote (escape_ascii c @ (escape cs @ dq # rest)) = emit [c] (unquote (escape cs @ dq # rest))"
        using True by (rule unquote_escape_ascii)
      also have "\<dots> = Some (c # cs, rest)"
        using ih by (simp add: sz emit_def)
      finally show ?thesis
        unfolding Cons e by simp
    next
      case False
      then have hi: "0x80 \<le> byte c" by simp
      note f = decode_valid [OF d nv hi, of "[]"]
      have e: "escape (c # cs) =
          (if r = 0x2028 \<or> r = 0x2029
           then bsl # ''u202'' @ hex (r mod 16) # escape (drop (sz - 1) cs)
           else c # take (sz - 1) cs @ escape (drop (sz - 1) cs))"
        using False d nv by (simp add: RuneError_def del: drop_append)
      have "unquote (escape (c # cs) @ dq # rest)
          = emit (c # take (sz - 1) cs) (unquote (escape (drop (sz - 1) cs) @ dq # rest))"
      proof (cases "r = 0x2028 \<or> r = 0x2029")
        case True
        have A: "unquote (bsl # ''u202'' @ hex (r mod 16) # (escape (drop (sz - 1) cs) @ dq # rest))
            = emit (EncodeRune r) (unquote (escape (drop (sz - 1) cs) @ dq # rest))"
          using True by (rule unquote_u202x)
        have E: "EncodeRune r = c # take (sz - 1) cs"
          using f by simp
        have esc: "escape (c # cs) @ dq # rest
            = bsl # ''u202'' @ hex (r mod 16) # (escape (drop (sz - 1) cs) @ dq # rest)"
          unfolding e using True by simp
        show ?thesis
          by (simp only: esc A E)
      next
        case False
        have B: "unquote (c # take (sz - 1) cs @ (escape (drop (sz - 1) cs) @ dq # rest))
            = emit (c # take (sz - 1) cs) (unquote (escape (drop (sz - 1) cs) @ dq # rest))"
          using d nv hi by (rule unquote_multibyte)
        have esc: "escape (c # cs) @ dq # rest
            = c # take (sz - 1) cs @ (escape (drop (sz - 1) cs) @ dq # rest)"
          unfolding e using False by simp
        show ?thesis
          by (simp only: esc B)
      qed
      also have "\<dots> = Some (c # take (sz - 1) cs @ drop (sz - 1) cs, rest)"
        using ih by (simp add: emit_def)
      finally show ?thesis
        by (simp add: Cons)
    qed
  qed
qed

lemma coerced_Nil: "coerced [] = []"
  by (simp add: coerced_def)

lemma coerced_Cons:
  "DecodeRune (c # cs) = (r, sz) \<Longrightarrow> coerced (c # cs) = EncodeRune r @ coerced (drop (sz - 1) cs)"
  by (simp add: coerced_def)

lemma EncodeRune_ascii: "byte c < 0x80 \<Longrightarrow> EncodeRune (byte c) = [c]"
  by (simp add: EncodeRune_def char_of_byte)

lemma EncodeRune_RuneError: "EncodeRune RuneError = [CHR 0xEF, CHR 0xBF, CHR 0xBD]"
  by (simp add: EncodeRune_def RuneError_def char_of_eq_iff)

lemma unquote_ufffd:
  "unquote (bsl # ''ufffd'' @ after) = emit (EncodeRune RuneError) (unquote after)"
  by (simp add: hex4_def hexval_def byte_def bsl_def dq_def IsSurrogate_def RuneError_def)

lemma unquote_escape_any:
  "unquote (escape s @ dq # rest) = Some (coerced s, rest)"
proof (induction "length s" arbitrary: s rule: less_induct)
  case less
  show ?case
  proof (cases s)
    case Nil
    then show ?thesis by (simp add: coerced_Nil)
  next
    case (Cons c cs)
    obtain r sz where d: "DecodeRune (c # cs) = (r, sz)"
      by (cases "DecodeRune (c # cs)")
    have co: "coerced (c # cs) = EncodeRune r @ coerced (drop (sz - 1) cs)"
      using d by (rule coerced_Cons)
    have "length (drop (sz - 1) cs) < length s"
      by (simp add: Cons)
    then have ih: "unquote (escape (drop (sz - 1) cs) @ dq # rest)
        = Some (coerced (drop (sz - 1) cs), rest)"
      by (rule less.hyps)
    show ?thesis
    proof (cases "byte c < 0x80")
      case True
      then have sz: "sz = 1" and r: "r = byte c"
        using d by (simp_all add: DecodeRune_ascii)
      have e: "escape (c # cs) = escape_ascii c @ escape cs"
        using True by simp
      have "unquote (escape_ascii c @ (escape cs @ dq # rest))
          = emit [c] (unquote (escape cs @ dq # rest))"
        using True by (rule unquote_escape_ascii)
      also have "\<dots> = Some (c # coerced cs, rest)"
        using ih by (simp add: sz emit_def)
      finally show ?thesis
        unfolding Cons e co r using True by (simp add: sz EncodeRune_ascii)
    next
      case False
      then have hi: "0x80 \<le> byte c" by simp
      show ?thesis
      proof (cases "r = RuneError \<and> sz = 1")
        case True
        have e: "escape (c # cs) = bsl # ''ufffd'' @ escape cs"
          using False d True by simp
        have "unquote (bsl # ''ufffd'' @ (escape cs @ dq # rest))
            = emit (EncodeRune RuneError) (unquote (escape cs @ dq # rest))"
          by (rule unquote_ufffd)
        also have "\<dots> = Some (EncodeRune RuneError @ coerced cs, rest)"
          using ih True by (simp add: emit_def)
        finally show ?thesis
          unfolding Cons e co using True by simp
      next
        case nv: False
        note f = decode_valid [OF d nv hi, of "[]"]
        have e: "escape (c # cs) =
            (if r = 0x2028 \<or> r = 0x2029
             then bsl # ''u202'' @ hex (r mod 16) # escape (drop (sz - 1) cs)
             else c # take (sz - 1) cs @ escape (drop (sz - 1) cs))"
          using False d nv by (simp add: RuneError_def del: drop_append)
        have E: "EncodeRune r = c # take (sz - 1) cs"
          using f by simp
        have "unquote (escape (c # cs) @ dq # rest)
            = emit (c # take (sz - 1) cs) (unquote (escape (drop (sz - 1) cs) @ dq # rest))"
        proof (cases "r = 0x2028 \<or> r = 0x2029")
          case True
          have A: "unquote (bsl # ''u202'' @ hex (r mod 16) # (escape (drop (sz - 1) cs) @ dq # rest))
              = emit (EncodeRune r) (unquote (escape (drop (sz - 1) cs) @ dq # rest))"
            using True by (rule unquote_u202x)
          have esc: "escape (c # cs) @ dq # rest
              = bsl # ''u202'' @ hex (r mod 16) # (escape (drop (sz - 1) cs) @ dq # rest)"
            unfolding e using True by simp
          show ?thesis
            by (simp only: esc A E)
        next
          case False
          have B: "unquote (c # take (sz - 1) cs @ (escape (drop (sz - 1) cs) @ dq # rest))
              = emit (c # take (sz - 1) cs) (unquote (escape (drop (sz - 1) cs) @ dq # rest))"
            using d nv hi by (rule unquote_multibyte)
          have esc: "escape (c # cs) @ dq # rest
              = c # take (sz - 1) cs @ (escape (drop (sz - 1) cs) @ dq # rest)"
            unfolding e using False by simp
          show ?thesis
            by (simp only: esc B)
        qed
        also have "\<dots> = Some ((c # take (sz - 1) cs) @ coerced (drop (sz - 1) cs), rest)"
          using ih by (simp add: emit_def)
        finally show ?thesis
          unfolding Cons co E .
      qed
    qed
  qed
qed

lemma coerced_valid: "ValidString s \<Longrightarrow> coerced s = s"
  using unquote_escape [of s "[]"] unquote_escape_any [of s "[]"] by simp

lemma coerced_length:
  "length s \<le> length (coerced s) \<and> (\<not> ValidString s \<longrightarrow> length s < length (coerced s))"
proof (induction "length s" arbitrary: s rule: less_induct)
  case less
  show ?case
  proof (cases s)
    case Nil
    then show ?thesis by (simp add: coerced_Nil)
  next
    case (Cons c cs)
    obtain r sz where d: "DecodeRune (c # cs) = (r, sz)"
      by (cases "DecodeRune (c # cs)")
    have co: "coerced (c # cs) = EncodeRune r @ coerced (drop (sz - 1) cs)"
      using d by (rule coerced_Cons)
    have v: "ValidString (c # cs) \<longleftrightarrow> \<not> (r = RuneError \<and> sz = 1) \<and> ValidString (drop (sz - 1) cs)"
      using d by simp
    have lt: "length (drop (sz - 1) cs) < length s"
      by (simp add: Cons)
    note IH = less.hyps [OF lt]
    have ih: "length (drop (sz - 1) cs) \<le> length (coerced (drop (sz - 1) cs))"
      "\<not> ValidString (drop (sz - 1) cs) \<Longrightarrow>
         length (drop (sz - 1) cs) < length (coerced (drop (sz - 1) cs))"
      using IH by blast+
    show ?thesis
    proof (cases "r = RuneError \<and> sz = 1")
      case True
      have "length (coerced (c # cs)) = 3 + length (coerced cs)"
        unfolding co using True by (simp add: EncodeRune_RuneError)
      moreover have "length cs \<le> length (coerced cs)"
        using ih(1) True by simp
      ultimately show ?thesis
        unfolding Cons by simp
    next
      case nv: False
      have len: "length (EncodeRune r) + length (drop (sz - 1) cs) = length (c # cs)"
      proof (cases "byte c < 0x80")
        case True
        then have "sz = 1" "r = byte c"
          using d by (simp_all add: DecodeRune_ascii)
        with True show ?thesis by (simp add: EncodeRune_ascii)
      next
        case False
        then have hi: "0x80 \<le> byte c" by simp
        note f = decode_valid [OF d nv hi, of "[]"]
        have "EncodeRune r = c # take (sz - 1) cs" and "sz - 1 \<le> length cs"
          using f by simp_all
        then show ?thesis by simp
      qed
      have l: "length (coerced (c # cs))
          = length (EncodeRune r) + length (coerced (drop (sz - 1) cs))"
        unfolding co by simp
      show ?thesis
        unfolding Cons v l using nv ih len by auto
    qed
  qed
qed

lemma coerced_eq_iff: "coerced s = s \<longleftrightarrow> ValidString s"
proof
  assume "coerced s = s"
  then have "\<not> length s < length (coerced s)" by simp
  with coerced_length [of s] show "ValidString s" by blast
next
  assume "ValidString s"
  then show "coerced s = s" by (rule coerced_valid)
qed

subsection \<open>Time stamps\<close>

lemma rfc3339_no_quote: "rfc3339_ok t \<Longrightarrow> dq \<notin> set t"
  by (auto simp: rfc3339_ok_def list_all_iff is_digit_def dq_def byte_def)

lemma until_quote:
  assumes "dq \<notin> set t"
  shows "takeWhile (\<lambda>c. c \<noteq> dq) (t @ dq # x) = t" "dropWhile (\<lambda>c. c \<noteq> dq) (t @ dq # x) = dq # x"
  using assms by (induction t) auto

subsection \<open>Tasks\<close>

lemma comma_not_digit: "\<not> is_digit (CHR '','')"
  by (simp add: is_digit_def byte_def)

lemma json_roundtrip_any:
  assumes "is_int64 (RetryCount t)" and "json_Marshal t = Inr data"
  shows "json_Unmarshal data = Inr (t\<lparr>Payload := coerced (Payload t)\<rparr>)"
proof -
  have ok: "rfc3339_ok (CreatedAt t)"
    using assms(2) by (auto simp: json_Marshal_def split: if_splits)
  have data: "data = ''{'' @ member_key ''payload'' @ appendString (Payload t)
                @ '','' @ member_key ''retry_count'' @ FormatInt (RetryCount t)
                @ '','' @ member_key ''created_at'' @ dq # CreatedAt t @ [dq] @ ''}''"
    using assms(2) ok by (simp add: json_Marshal_def)
  have "json_Unmarshal data = Inr \<lparr>Payload = coerced (Payload t), RetryCount = RetryCount t,
      CreatedAt = CreatedAt t\<rparr>"
    unfolding data
    by (simp add: json_Unmarshal_def member_key_def appendString_def expect_def
        unquote_escape_any scan_int64_FormatInt [OF assms(1) comma_not_digit]
        until_quote [OF rfc3339_no_quote [OF ok]] ok)
  then show ?thesis by simp
qed

lemma stamped_fields:
  "Payload (stamped now task) = Payload task" "RetryCount (stamped now task) = RetryCount task"
  by (simp_all add: stamped_def)

text \<open>
  C6, as amended. A task (whose retry count is a value of the Go type) is enqueued on a
  broker that already holds the elements \<open>webhook_queue s\<close>. Once those have been
  dequeued, the next call of \<open>Dequeue\<close> returns the task that \<open>Enqueue\<close> serialised: the
  task with its creation time set, with exactly the retry count of the original, and with
  the payload of the original in which every byte that does not begin a well-formed
  UTF-8 sequence is replaced by U+FFFD. That payload is the original one exactly when the
  original is valid UTF-8.
\<close>

theorem round_trip_keeps_count_and_valid_payload:
  assumes "is_int64 (RetryCount task)"
    and "Enqueue ctx1 now task s = (None, s1)" and "\<not> Done ctx" and "\<not> failing s BRPOP"
  shows "Dequeue_n (length (webhook_queue s) + 1) ctx s1
           = map json_Unmarshal (rev (webhook_queue s))
             @ [Inr \<lparr>Payload = coerced (Payload task), RetryCount = RetryCount task,
                      CreatedAt = CreatedAt (stamped now task)\<rparr>]
         \<and> (coerced (Payload task) = Payload task \<longleftrightarrow> ValidString (Payload task))
         \<and> (\<forall>c cs r sz. DecodeRune (c # cs) = (r, sz) \<longrightarrow>
               coerced (c # cs)
                 = (if r = RuneError \<and> sz = 1 then [CHR 0xEF, CHR 0xBF, CHR 0xBD] @ coerced cs
                    else (c # take (sz - 1) cs) @ coerced (drop (sz - 1) cs)))
         \<and> coerced [] = []"
proof -
  obtain data where m: "json_Marshal (stamped now task) = Inr data"
    and s1: "s1 = s\<lparr>webhook_queue := data # webhook_queue s\<rparr>"
    using Enqueue_None [OF assms(2)] by blast
  have u: "json_Unmarshal data = Inr \<lparr>Payload = coerced (Payload task),
      RetryCount = RetryCount task, CreatedAt = CreatedAt (stamped now task)\<rparr>"
    using json_roundtrip_any [of "stamped now task" data] assms(1) m
    by (simp add: stamped_fields)
  have f1: "\<not> failing s1 BRPOP"
    using assms(4) by (simp add: s1)
  have "Dequeue_n (length (webhook_queue s1)) ctx s1 = map json_Unmarshal (rev (webhook_queue s1))"
    using assms(3) f1 by (rule Dequeue_n_all) simp
  then have A: "Dequeue_n (length (webhook_queue s) + 1) ctx s1
      = map json_Unmarshal (rev (webhook_queue s))
        @ [Inr \<lparr>Payload = coerced (Payload task), RetryCount = RetryCount task,
                 CreatedAt = CreatedAt (stamped now task)\<rparr>]"
    by (simp add: s1 u)
  have B: "coerced (Payload task) = Payload task \<longleftrightarrow> ValidString (Payload task)"
    by (rule coerced_eq_iff)
  have C: "\<forall>c cs r sz. DecodeRune (c # cs) = (r, sz) \<longrightarrow>
               coerced (c # cs)
                 = (if r = RuneError \<and> sz = 1 then [CHR 0xEF, CHR 0xBF, CHR 0xBD] @ coerced cs
                    else (c # take (sz - 1) cs) @ coerced (drop (sz - 1) cs))"
  proof (intro allI impI)
    fix c cs r sz
    assume d: "DecodeRune (c # cs) = (r, sz)"
    show "coerced (c # cs)
                 = (if r = RuneError \<and> sz = 1 then [CHR 0xEF, CHR 0xBF, CHR 0xBD] @ coerced cs
                    else (c # take (sz - 1) cs) @ coerced (drop (sz - 1) cs))"
    proof (cases "r = RuneError \<and> sz = 1")
      case True
      then show ?thesis
        unfolding coerced_Cons [OF d] by (simp add: EncodeRune_RuneError)
    next
      case nv: False
      have "EncodeRune r = c # take (sz - 1) cs"
      proof (cases "byte c < 0x80")
        case True
        then have "sz = 1" "r = byte c"
          using d by (simp_all add: DecodeRune_ascii)
        with True show ?thesis by (simp add: EncodeRune_ascii)
      next
        case False
        then have hi: "0x80 \<le> byte c" by simp
        from decode_valid [OF d nv hi, of "[]"] show ?thesis by simp
      qed
      then show ?thesis
        unfolding coerced_Cons [OF d] using nv by simp
    qed
  qed
  show ?thesis
    using A B C coerced_Nil by (intro conjI)
qed

lemma task_x_valid: "ValidString (Payload task_x)" "is_int64 (RetryCount task_x)"
  by (simp_all add: task_x_def is_int64_def DecodeRune_def byte_def RuneError_def)

theorem round_trip_keeps_count_and_valid_payload_witness:
  "is_int64 (RetryCount task_x)
   \<and> Enqueue Background sample_time task_x empty_store
       = (None, snd (Enqueue Background sample_time task_x empty_store))
   \<and> \<not> Done (WithCancel False) \<and> \<not> failing empty_store BRPOP
   \<and> ValidString (Payload task_x)
   \<and> Dequeue_n 1 (WithCancel False) (snd (Enqueue Background sample_time task_x empty_store))
       = [Inr task_x]"
proof -
  have st: "stamped sample_time task_x = task_x"
    by (simp add: stamped_def task_x_def IsZero_def zero_Time_def sample_time_def)
  have mx: "json_Marshal task_x = Inr (wire ''x'' ''0'' sample_time)"
    by (simp add: task_x_def sample_time_def wire_def codec_defs)
  have h2: "Enqueue Background sample_time task_x empty_store
       = (None, snd (Enqueue Background sample_time task_x empty_store))"
    by (simp add: Enqueue_def st mx LPush_def command_error_def empty_store_def)
  have h3: "\<not> Done (WithCancel False)" and h4: "\<not> failing empty_store BRPOP"
    by (simp_all add: empty_store_def)
  have len: "length (webhook_queue empty_store) + 1 = 1" and q0: "webhook_queue empty_store = []"
    by (simp_all add: empty_store_def)
  note r = round_trip_keeps_count_and_valid_payload [OF task_x_valid(2) h2 h3 h4]
  have co: "coerced (Payload task_x) = Payload task_x"
    using r [THEN conjunct2, THEN conjunct1] task_x_valid(1) by simp
  have "Dequeue_n 1 (WithCancel False) (snd (Enqueue Background sample_time task_x empty_store))
       = [Inr task_x]"
    using r [THEN conjunct1] unfolding len q0 st co by simp
  with task_x_valid h2 h3 h4 show ?thesis by (intro conjI)
qed

text \<open>
  C6, as stated, fails: a task whose payload holds the byte \<open>0xFF\<close> comes back from the
  broker with the three bytes of U+FFFD in its place.
\<close>

theorem round_trip_replaces_invalid_bytes:
  "Dequeue_n 1 (WithCancel False) (snd (Enqueue Background sample_time task_ff empty_store))
     = [Inr \<lparr>Payload = [dq, CHR 0xEF, CHR 0xBF, CHR 0xBD, dq], RetryCount = 0,
              CreatedAt = sample_time\<rparr>]
   \<and> Payload task_ff \<noteq> [dq, CHR 0xEF, CHR 0xBF, CHR 0xBD, dq]"
proof -
  have e: "snd (Enqueue Background sample_time task_ff empty_store)
      = empty_store\<lparr>webhook_queue := [wire [bsl, dq, bsl, CHR ''u'', CHR ''f'', CHR ''f'', CHR ''f'', CHR ''d'', bsl, dq] ''0''
            sample_time]\<rparr>"
    by (simp add: task_ff_def sample_time_def wire_def store_defs codec_defs)
  have u: "json_Unmarshal (wire [bsl, dq, bsl, CHR ''u'', CHR ''f'', CHR ''f'', CHR ''f'', CHR ''d'', bsl, dq] ''0'' sample_time)
      = Inr \<lparr>Payload = [dq, CHR 0xEF, CHR 0xBF, CHR 0xBD, dq], RetryCount = 0,
              CreatedAt = sample_time\<rparr>"
    by (simp add: sample_time_def wire_def codec_defs)
  have "Dequeue (WithCancel False)
          (empty_store\<lparr>webhook_queue := [wire [bsl, dq, bsl, CHR ''u'', CHR ''f'', CHR ''f'', CHR ''f'', CHR ''d'', bsl, dq] ''0''
            sample_time]\<rparr>)
      = Some (Inr \<lparr>Payload = [dq, CHR 0xEF, CHR 0xBF, CHR 0xBD, dq], RetryCount = 0,
              CreatedAt = sample_time\<rparr>, empty_store\<lparr>webhook_queue := []\<rparr>)"
    by (simp add: Dequeue_def BRPop_def command_error_def u) (simp add: empty_store_def)
  then have "Dequeue_n (Suc 0) (WithCancel False)
      (snd (Enqueue Background sample_time task_ff empty_store))
     = [Inr \<lparr>Payload = [dq, CHR 0xEF, CHR 0xBF, CHR 0xBD, dq], RetryCount = 0,
              CreatedAt = sample_time\<rparr>]"
    unfolding e by simp
  then show ?thesis
    by (simp add: task_ff_def dq_def)
qed


end
